theory Spec2Isabelle
  imports Main "HOL-Library.AList"
begin

section \<open>JavaScript values used by the bot\<close>

text \<open>
  The program is \<^verbatim>\<open>src/index.ts\<close> (the current version, the first document of that file).
  A JavaScript string is modelled as a \<^typ>\<open>string\<close>; a character stands for one code unit
  below 256. A JavaScript \<^verbatim>\<open>number\<close> that holds an identifier is an exact integer or
  \<^verbatim>\<open>NaN\<close> (what \<^verbatim>\<open>parseInt\<close> returns on text with no digits); the rounding of
  integers beyond \<open>2^53\<close> is not modelled.
\<close>

datatype number = NaN | Num int

datatype error =
    NoValidJSON            \<comment> \<open>\<^verbatim>\<open>Error('No valid JSON string found in response')\<close>\<close>
  | TypeError              \<comment> \<open>reading a property of \<^verbatim>\<open>undefined\<close>\<close>
  | SyntaxError            \<comment> \<open>thrown by \<^verbatim>\<open>JSON.parse\<close>\<close>
  | BackendError string    \<comment> \<open>the completion call of the named model threw\<close>
  | EmptyResponse string   \<comment> \<open>\<^verbatim>\<open>Error(`Model ${model} returned empty response`)\<close>\<close>
  | AllModelsFailed        \<comment> \<open>\<^verbatim>\<open>Error("All models failed to generate a response.")\<close>\<close>
  | ApiError               \<comment> \<open>a call to the Google API threw\<close>

subsection \<open>Strings\<close>

definition startsWith :: "string \<Rightarrow> string \<Rightarrow> bool" where
  "startsWith s p = (take (length p) s = p)"

text \<open>\<^verbatim>\<open>s.slice(n)\<close> for \<open>0 \<le> n\<close>.\<close>

definition slice :: "string \<Rightarrow> nat \<Rightarrow> string" where
  "slice s n = drop n s"

text \<open>White space and line terminators of ECMAScript, among the code units below 256.\<close>

definition is_ws :: "char \<Rightarrow> bool" where
  "is_ws c = (c \<in> set [CHR 0x09, CHR 0x0A, CHR 0x0B, CHR 0x0C, CHR 0x0D, CHR 0x20, CHR 0xA0])"

definition trim :: "string \<Rightarrow> string" where
  "trim s = rev (dropWhile is_ws (rev (dropWhile is_ws s)))"

text \<open>\<^verbatim>\<open>s.split(sep)\<close> for a separator of one character.\<close>

fun split :: "string \<Rightarrow> char \<Rightarrow> string list" where
  "split [] sep = [[]]"
| "split (c # cs) sep =
     (if c = sep then [] # split cs sep
      else (case split cs sep of [] \<Rightarrow> [[c]] | p # ps \<Rightarrow> (c # p) # ps))"

text \<open>\<^verbatim>\<open>s.replace(pat, rep)\<close> with a string pattern: the first occurrence only.\<close>

fun replace :: "string \<Rightarrow> string \<Rightarrow> string \<Rightarrow> string" where
  "replace [] pat rep = (if pat = [] then rep else [])"
| "replace (c # cs) pat rep =
     (if take (length pat) (c # cs) = pat then rep @ drop (length pat) (c # cs)
      else c # replace cs pat rep)"

text \<open>\<^verbatim>\<open>indexOf\<close> and \<^verbatim>\<open>lastIndexOf\<close> of one character: \<open>-1\<close> when it does not occur.\<close>

fun indexOf :: "string \<Rightarrow> char \<Rightarrow> int" where
  "indexOf [] c = -1"
| "indexOf (x # xs) c =
     (if x = c then 0 else (let i = indexOf xs c in if i = -1 then -1 else i + 1))"

fun lastIndexOf :: "string \<Rightarrow> char \<Rightarrow> int" where
  "lastIndexOf [] c = -1"
| "lastIndexOf (x # xs) c =
     (let i = lastIndexOf xs c in if i \<noteq> -1 then i + 1 else if x = c then 0 else -1)"

text \<open>\<^verbatim>\<open>s.substring(a, b)\<close>: both ends are clamped to the string and swapped when out of order.\<close>

definition substring :: "string \<Rightarrow> int \<Rightarrow> int \<Rightarrow> string" where
  "substring s a b =
     (let n = int (length s);
          a' = max 0 (min a n);
          b' = max 0 (min b n);
          lo = min a' b';
          hi = max a' b'
      in take (nat (hi - lo)) (drop (nat lo) s))"

subsection \<open>Numbers and their text\<close>

definition digit_char :: "nat \<Rightarrow> char" where
  "digit_char d = char_of (48 + d)"

fun digits :: "nat \<Rightarrow> string" where
  "digits n = (if n < 10 then [digit_char n] else digits (n div 10) @ [digit_char (n mod 10)])"

declare digits.simps [simp del]

text \<open>The text of an integer, as a template literal prints it.\<close>

definition dec_string :: "int \<Rightarrow> string" where
  "dec_string k = (if k < 0 then CHR ''-'' # digits (nat (- k)) else digits (nat k))"

definition Number_toString :: "number \<Rightarrow> string" where
  "Number_toString x = (case x of NaN \<Rightarrow> ''NaN'' | Num k \<Rightarrow> dec_string k)"

text \<open>The value of a character as a digit, in any radix up to 36.\<close>

definition digitValue :: "char \<Rightarrow> nat option" where
  "digitValue c =
     (let n = (of_char c :: nat)
      in if 48 \<le> n \<and> n \<le> 57 then Some (n - 48)
         else if 97 \<le> n \<and> n \<le> 122 then Some (n - 87)
         else if 65 \<le> n \<and> n \<le> 90 then Some (n - 55)
         else None)"

definition radix_digit :: "nat \<Rightarrow> char \<Rightarrow> bool" where
  "radix_digit R c = (case digitValue c of None \<Rightarrow> False | Some d \<Rightarrow> d < R)"

definition digit_of :: "char \<Rightarrow> nat" where
  "digit_of c = (case digitValue c of None \<Rightarrow> 0 | Some d \<Rightarrow> d)"

definition radix_value :: "nat \<Rightarrow> string \<Rightarrow> nat" where
  "radix_value R Z = foldl (\<lambda>a c. a * R + digit_of c) 0 Z"

text \<open>
  \<^verbatim>\<open>parseInt(s, radix)\<close> as ECMAScript defines it; the radix \<open>None\<close> is a call with no
  second argument. Leading white space is skipped, one sign is read, a \<^verbatim>\<open>0x\<close> prefix
  selects base 16 when the radix is absent or 16, and the longest run of digits of the radix
  is the value; no digit gives \<^verbatim>\<open>NaN\<close>.
\<close>

definition parseInt :: "string \<Rightarrow> nat option \<Rightarrow> number" where
  "parseInt s radix =
     (let S = dropWhile is_ws s;
          sign = (if S \<noteq> [] \<and> hd S = CHR ''-'' then - 1 else (1::int));
          S1 = (if S \<noteq> [] \<and> (hd S = CHR ''+'' \<or> hd S = CHR ''-'') then tl S else S);
          R0 = (case radix of None \<Rightarrow> 0 | Some r \<Rightarrow> r)
      in if R0 \<noteq> 0 \<and> (R0 < 2 \<or> 36 < R0) then NaN
         else
           (let stripPrefix = (R0 = 0 \<or> R0 = 16);
                R1 = (if R0 = 0 then 10 else R0);
                hex = (stripPrefix \<and> (take 2 S1 = ''0x'' \<or> take 2 S1 = ''0X''));
                R = (if hex then 16 else R1);
                S2 = (if hex then drop 2 S1 else S1);
                Z = takeWhile (radix_digit R) S2
            in if Z = [] then NaN else Num (sign * int (radix_value R Z))))"

definition isNaN :: "number \<Rightarrow> bool" where
  "isNaN x = (x = NaN)"

subsection \<open>Maps and sets\<close>

text \<open>
  A \<^verbatim>\<open>Map\<close> and a plain object are association lists in insertion order: \<^verbatim>\<open>get\<close> is
  \<^const>\<open>map_of\<close>, \<^verbatim>\<open>set\<close> is \<^const>\<open>AList.update\<close> (the value is replaced in place, a new
  key goes last) and \<^verbatim>\<open>delete\<close> is \<^const>\<open>AList.delete\<close>. A \<^verbatim>\<open>Set\<close> is the list of its
  members in insertion order.
\<close>

definition Set_has :: "'a list \<Rightarrow> 'a \<Rightarrow> bool" where
  "Set_has S x = (x \<in> set S)"

definition Set_add :: "'a list \<Rightarrow> 'a \<Rightarrow> 'a list" where
  "Set_add S x = (if x \<in> set S then S else S @ [x])"

definition Set_delete :: "'a list \<Rightarrow> 'a \<Rightarrow> 'a list" where
  "Set_delete S x = filter (\<lambda>y. y \<noteq> x) S"

text \<open>\<^verbatim>\<open>new Set(arr)\<close>: the members of the array, each at its first position.\<close>

definition Set_of_array :: "'a list \<Rightarrow> 'a list" where
  "Set_of_array arr = foldl Set_add [] arr"

section \<open>The JSON payload of a model response\<close>

definition extractJSON :: "string \<Rightarrow> error + string" where
  "extractJSON response =
     (let firstBracket = indexOf response CHR ''['';
          lastBracket = lastIndexOf response CHR '']''
      in if firstBracket \<noteq> -1 \<and> lastBracket \<noteq> -1 \<and> lastBracket > firstBracket
         then Inr (substring response firstBracket (lastBracket + 1))
         else
           (let firstBrace = indexOf response CHR ''{'';
                lastBrace = lastIndexOf response CHR ''}''
            in if firstBrace = -1 \<or> lastBrace = -1 \<or> lastBrace \<le> firstBrace
               then Inl NoValidJSON
               else Inr (substring response firstBrace (lastBrace + 1))))"

section \<open>Data model\<close>

text \<open>
  Record fields are global names, so the fields \<^verbatim>\<open>id\<close> and \<^verbatim>\<open>summary\<close> of a calendar
  and \<^verbatim>\<open>accountId\<close> of an event carry a prefix. An optional field is an \<open>option\<close>.
\<close>

record CalendarEvent =
  title :: string
  start_time :: string
  end_time :: string
  description :: string
  ev_accountId :: "int option"
  calendar :: "string option"

text \<open>
  The value that \<^verbatim>\<open>JSON.parse\<close> returns is stored and read without a check against the
  interface. The text cut from a bracket pair parses to an array, whose elements may be
  \<^verbatim>\<open>null\<close>; the text cut from a brace pair parses to one object, which is not iterable and
  has no \<^verbatim>\<open>forEach\<close>. Reading a property of \<^verbatim>\<open>null\<close> throws; reading one of any other
  element does not. An element that is not \<^verbatim>\<open>null\<close> is taken with the fields of the
  interface and their types; what the code does with a field of another type is not
  followed here.
\<close>

datatype element = Null | Object CalendarEvent

datatype extraction = JSON_object CalendarEvent | JSON_array "element list"

record PendingEvents =
  events :: extraction
  originalText :: string
  previousJSONProposal :: "string option"
  editHistory :: "string option"

text \<open>The token material of a client; a client just created has none.\<close>

type_synonym Credentials = "(string \<times> string) list"

datatype OAuth2Client = OAuth2Client (credentials: Credentials)

record CalendarInfo =
  cal_id :: string
  cal_summary :: string

record OAuthAccount =
  accountId :: int
  email :: "string option"
  oauth2Client :: OAuth2Client
  calendars :: "CalendarInfo list"

record PendingOAuth =
  po_chatId :: number
  po_oauth2Client :: OAuth2Client

text \<open>
  The record written to \<^verbatim>\<open>authCache.json\<close>. \<^verbatim>\<open>JSON.stringify\<close> followed by
  \<^verbatim>\<open>JSON.parse\<close> is taken to return the same data, so the file holds the data itself;
  a field that may be missing is an \<open>option\<close>, and a disabled entry that is not an array is
  \<open>None\<close>.
\<close>

record AccountData =
  ad_accountId :: int
  ad_email :: "string option"
  ad_calendars :: "CalendarInfo list"
  ad_tokens :: Credentials

record ChatData =
  cd_accounts :: "AccountData list option"
  cd_disabledCalendars :: "(string \<times> string list option) list option"

type_synonym CacheData = "(string \<times> ChatData) list"

datatype AuthCacheFile = NoFile | Unparsable | Parsed CacheData

text \<open>What is sent to the calendar provider by \<^verbatim>\<open>calendarApi.events.insert\<close>.\<close>

record InsertRequest =
  req_auth :: OAuth2Client
  req_calendarId :: string
  req_summary :: string
  req_description :: string
  req_start :: string
  req_end :: string

text \<open>
  The variable parts of the extraction prompt, in the order the template embeds them; the
  fixed instructions between them are the same in every prompt and are left out.
\<close>

record Prompt =
  p_currentDate :: string
  p_currentDay :: string
  p_accountInfo :: string
  p_defaultTimezone :: string
  p_previousProposalText :: string
  p_userText :: string

text \<open>
  The global variables of the process, the cache file, and what the process has sent out:
  chat messages (with a flag for the inline Confirm/Edit keyboard), calendar inserts and
  answered callback queries, each in the order of the calls.
\<close>

record state =
  pendingEvents :: "(number \<times> PendingEvents) list"
  oauthAccounts :: "(number \<times> OAuthAccount list) list"
  pendingOAuth :: "(string \<times> PendingOAuth) list"
  disabledCalendars :: "(number \<times> (string \<times> string list) list) list"
  authCache :: AuthCacheFile
  sent :: "(number \<times> string \<times> bool) list"
  inserted :: "InsertRequest list"
  answered :: "string list"

text \<open>
  The external collaborators, one field each. A call that may throw returns an \<open>option\<close>
  (\<open>None\<close> is the exception). The outcome of a calendar insert may depend on how many inserts
  came before it.
\<close>

record env =
  currentDate :: string
  currentDay :: string
  DEFAULT_TIMEZONE :: string
  completions_create :: "string \<Rightarrow> Prompt \<Rightarrow> string option"
  JSON_parse :: "string \<Rightarrow> extraction option"
  moment_tz_toISOString :: "string \<Rightarrow> string \<Rightarrow> string"
  events_insert :: "nat \<Rightarrow> InsertRequest \<Rightarrow> bool"
  Date_now :: int
  generateAuthUrl :: "string \<Rightarrow> string"
  getToken :: "string \<Rightarrow> Credentials option"
  calendarList_list :: "OAuth2Client \<Rightarrow> (string option \<times> string option) list option option"
  userinfo_get :: "OAuth2Client \<Rightarrow> string option option"
  writeFileSync_ok :: bool

definition init_state :: state where
  "init_state =
     \<lparr>pendingEvents = [], oauthAccounts = [], pendingOAuth = [], disabledCalendars = [],
      authCache = NoFile, sent = [], inserted = [], answered = []\<rparr>"

definition sendMessage :: "state \<Rightarrow> number \<Rightarrow> string \<Rightarrow> state" where
  "sendMessage s chatId text = s\<lparr>sent := sent s @ [(chatId, text, False)]\<rparr>"

definition sendMessage_keyboard :: "state \<Rightarrow> number \<Rightarrow> string \<Rightarrow> state" where
  "sendMessage_keyboard s chatId text = s\<lparr>sent := sent s @ [(chatId, text, True)]\<rparr>"

text \<open>A string is truthy when it is present and not empty.\<close>

definition truthy :: "string option \<Rightarrow> bool" where
  "truthy x = (case x of None \<Rightarrow> False | Some t \<Rightarrow> t \<noteq> [])"

definition or_else :: "string option \<Rightarrow> string \<Rightarrow> string" where
  "or_else x d = (case x of None \<Rightarrow> d | Some t \<Rightarrow> if t = [] then d else t)"

text \<open>\<^verbatim>\<open>arr[i]\<close>: \<^verbatim>\<open>undefined\<close> outside the array.\<close>

definition array_get :: "'a list \<Rightarrow> int \<Rightarrow> 'a option" where
  "array_get xs i = (if 0 \<le> i \<and> i < int (length xs) then Some (xs ! nat i) else None)"

section \<open>Persistence\<close>

definition account_data :: "OAuthAccount \<Rightarrow> AccountData" where
  "account_data account =
     \<lparr>ad_accountId = accountId account, ad_email = email account,
      ad_calendars = calendars account, ad_tokens = credentials (oauth2Client account)\<rparr>"

definition chat_data :: "state \<Rightarrow> number \<Rightarrow> OAuthAccount list \<Rightarrow> ChatData" where
  "chat_data s chatId accounts =
     \<lparr>cd_accounts = Some (map account_data accounts),
      cd_disabledCalendars =
        Some (case map_of (disabledCalendars s) chatId of
                None \<Rightarrow> []
              | Some obj \<Rightarrow> map (\<lambda>(acctId, S). (acctId, Some S)) obj)\<rparr>"

definition cacheData_of :: "state \<Rightarrow> CacheData" where
  "cacheData_of s =
     foldl (\<lambda>cacheData (chatId, accounts).
              AList.update (Number_toString chatId) (chat_data s chatId accounts) cacheData)
       [] (oauthAccounts s)"

text \<open>A failed write is logged and swallowed: the file keeps its content.\<close>

definition saveAuthCache :: "env \<Rightarrow> state \<Rightarrow> state" where
  "saveAuthCache e s =
     (if writeFileSync_ok e then s\<lparr>authCache := Parsed (cacheData_of s)\<rparr> else s)"

definition load_account :: "AccountData \<Rightarrow> OAuthAccount" where
  "load_account accountData =
     \<lparr>accountId = ad_accountId accountData, email = ad_email accountData,
      oauth2Client = OAuth2Client (ad_tokens accountData),
      calendars = ad_calendars accountData\<rparr>"

definition load_disabled ::
  "(string \<times> string list option) list option \<Rightarrow> (string \<times> string list) list" where
  "load_disabled section =
     (case section of
        None \<Rightarrow> []
      | Some d \<Rightarrow>
          foldl (\<lambda>disabledForChat (acctId, arr).
                   AList.update (Number_toString (parseInt acctId None))
                     (case arr of None \<Rightarrow> [] | Some a \<Rightarrow> Set_of_array a) disabledForChat)
            [] d)"

definition load_chat :: "state \<Rightarrow> string \<times> ChatData \<Rightarrow> state" where
  "load_chat s entry =
     (let chatId = fst entry;
          chatData = snd entry;
          accountsList = (case cd_accounts chatData of None \<Rightarrow> [] | Some l \<Rightarrow> l);
          oauthAccountsList = map load_account accountsList;
          key = parseInt chatId (Some 10)
      in s\<lparr>oauthAccounts := AList.update key oauthAccountsList (oauthAccounts s),
           disabledCalendars :=
             AList.update key (load_disabled (cd_disabledCalendars chatData))
               (disabledCalendars s)\<rparr>)"

text \<open>
  The entries of the file are visited in the order they were written. JavaScript visits
  keys that are array indices first, in ascending order; with one entry for each key the
  loaded maps hold the same value for every key in either order.
\<close>

definition loadAuthCache :: "state \<Rightarrow> state" where
  "loadAuthCache s =
     (case authCache s of
        Parsed data \<Rightarrow> foldl load_chat s data
      | _ \<Rightarrow> s)"

text \<open>A new process: the variables are empty and the cache file is loaded.\<close>

definition restart :: "state \<Rightarrow> state" where
  "restart s =
     loadAuthCache
       (s\<lparr>pendingEvents := [], oauthAccounts := [], pendingOAuth := [],
          disabledCalendars := []\<rparr>)"

section \<open>Calendar references\<close>

record ResolveResult =
  success :: bool
  realCalendarId :: string
  errorMsg :: "string option"

definition resolved :: "string \<Rightarrow> ResolveResult" where
  "resolved cid = \<lparr>success = True, realCalendarId = cid, errorMsg = None\<rparr>"

definition failed :: "string \<Rightarrow> ResolveResult" where
  "failed msg = \<lparr>success = False, realCalendarId = [], errorMsg = Some msg\<rparr>"

text \<open>
  \<^verbatim>\<open>resolveCalendarId\<close>. The read \<^verbatim>\<open>account.calendars[calendarIndex - 1].id\<close> throws a
  \<^verbatim>\<open>TypeError\<close> when the index is outside the array.
\<close>

definition resolveCalendarId ::
  "state \<Rightarrow> number \<Rightarrow> int \<Rightarrow> string \<Rightarrow> bool \<Rightarrow> error + ResolveResult" where
  "resolveCalendarId s chatId acctId calendarIdentifier isStrict =
     (case map_of (oauthAccounts s) chatId of
        None \<Rightarrow>
          if isStrict then Inr (failed ''No authenticated accounts found.'')
          else Inr (resolved calendarIdentifier)
      | Some accounts \<Rightarrow>
          (case find (\<lambda>acc. accountId acc = acctId) accounts of
             None \<Rightarrow>
               if isStrict then Inr (failed (''Account '' @ dec_string acctId @ '' not found.''))
               else Inr (resolved calendarIdentifier)
           | Some account \<Rightarrow>
               (case parseInt calendarIdentifier None of
                  NaN \<Rightarrow> Inr (resolved calendarIdentifier)
                | Num calendarIndex \<Rightarrow>
                    if isStrict \<and>
                       (calendarIndex < 1 \<or> calendarIndex > int (length (calendars account)))
                    then Inr (failed
                      (''Invalid calendar index. Please provide a number between 1 and '' @
                       dec_string (int (length (calendars account))) @ ''.''))
                    else if \<not> isStrict \<or>
                       (calendarIndex \<ge> 1 \<and> calendarIndex \<le> int (length (calendars account)))
                    then (case array_get (calendars account) (calendarIndex - 1) of
                            None \<Rightarrow> Inl TypeError
                          | Some cal \<Rightarrow> Inr (resolved (cal_id cal)))
                    else Inr (resolved calendarIdentifier))))"

section \<open>Rendering\<close>

definition is_disabled :: "state \<Rightarrow> number \<Rightarrow> int \<Rightarrow> string \<Rightarrow> bool" where
  "is_disabled s chatId acctId cid =
     (case map_of (disabledCalendars s) chatId of
        None \<Rightarrow> False
      | Some userDisabled \<Rightarrow>
          (case map_of userDisabled (dec_string acctId) of
             None \<Rightarrow> False
           | Some S \<Rightarrow> Set_has S cid))"

definition calendar_line ::
  "state \<Rightarrow> number \<Rightarrow> bool \<Rightarrow> bool \<Rightarrow> OAuthAccount \<Rightarrow> nat \<times> CalendarInfo \<Rightarrow> string" where
  "calendar_line s chatId showDisabled enabledOnly account ic =
     (let index = fst ic;
          cal = snd ic;
          disabled = is_disabled s chatId (accountId account) (cal_id cal)
      in if enabledOnly \<and> disabled then []
         else ''- '' @ dec_string (int index + 1) @ ''. '' @ cal_summary cal @ '' (ID: '' @
              cal_id cal @ '')'' @
              (if showDisabled \<and> disabled then '' (Disabled)'' else []) @ ''\<newline>'')"

definition account_block ::
  "state \<Rightarrow> number \<Rightarrow> bool \<Rightarrow> bool \<Rightarrow> OAuthAccount \<Rightarrow> string" where
  "account_block s chatId showDisabled enabledOnly account =
     (let accountLabel =
            (if truthy (email account)
             then ''Account '' @ dec_string (accountId account) @ '' ('' @
                  or_else (email account) [] @ '')''
             else ''Account '' @ dec_string (accountId account))
      in accountLabel @ '':\<newline>'' @
         (if calendars account = [] then ''- No calendars found.\<newline>''
          else concat (map (calendar_line s chatId showDisabled enabledOnly account)
                        (enumerate 0 (calendars account)))))"

definition buildAccountsAndCalendarsMessage ::
  "state \<Rightarrow> OAuthAccount list \<Rightarrow> number \<Rightarrow> bool \<Rightarrow> bool \<Rightarrow> string" where
  "buildAccountsAndCalendarsMessage s accounts chatId showDisabled enabledOnly =
     (if accounts = [] then ''No accounts connected.\<newline>''
      else concat (map (account_block s chatId showDisabled enabledOnly) accounts))"

definition event_block :: "nat \<times> CalendarEvent \<Rightarrow> string" where
  "event_block ie =
     (let index = fst ie; evt = snd ie
      in ''\<newline>\<newline>Event '' @ dec_string (int index + 1) @ '':'' @
         ''\<newline>Title: '' @ title evt @
         ''\<newline>Start: '' @ start_time evt @
         ''\<newline>End: '' @ end_time evt @
         ''\<newline>Description: '' @ description evt @
         ''\<newline>Account: '' @
           (case ev_accountId evt of None \<Rightarrow> ''undefined'' | Some k \<Rightarrow> dec_string k) @
         ''\<newline>Calendar: '' @ or_else (calendar evt) ''primary'')"

text \<open>
  The blocks that \<^verbatim>\<open>events.forEach\<close> appends, from the given index on; the callback throws
  at the first element that is \<^verbatim>\<open>null\<close>.
\<close>

fun event_blocks :: "nat \<Rightarrow> element list \<Rightarrow> error + string" where
  "event_blocks index [] = Inr []"
| "event_blocks index (Null # els) = Inl TypeError"
| "event_blocks index (Object evt # els) =
     (case event_blocks (Suc index) els of
        Inl err \<Rightarrow> Inl err
      | Inr rest \<Rightarrow> Inr (event_block (index, evt) @ rest))"

definition formatEventsReply :: "extraction \<Rightarrow> string \<Rightarrow> error + string" where
  "formatEventsReply evs confirmMessage =
     (case evs of
        JSON_object obj \<Rightarrow> Inl TypeError
      | JSON_array els \<Rightarrow>
          (case event_blocks 0 els of
             Inl err \<Rightarrow> Inl err
           | Inr blocks \<Rightarrow>
               Inr (''Proposed events:'' @ blocks @ ''\<newline>\<newline>'' @ confirmMessage)))"

definition fetchCalendars :: "env \<Rightarrow> OAuth2Client \<Rightarrow> error + CalendarInfo list" where
  "fetchCalendars e client =
     (case calendarList_list e client of
        None \<Rightarrow> Inl ApiError
      | Some None \<Rightarrow> Inr []
      | Some (Some items) \<Rightarrow>
          Inr (map (\<lambda>item. \<lparr>cal_id = or_else (fst item) [],
                            cal_summary = or_else (snd item) ''No Title''\<rparr>) items))"

section \<open>Proposal extraction\<close>

definition modelPriorityOrder :: "string list" where
  "modelPriorityOrder =
     [''deepseek-r1-distill-llama-70b-specdec'', ''deepseek-r1-distill-llama-70b'',
      ''deepseek-r1-distill-qwen-32b'', ''qwen-2.5-32b'', ''llama-3.3-70b-versatile'']"

text \<open>
  The loop over the models: the first response that is not empty ends it; an exception or an
  empty response is remembered as \<^verbatim>\<open>lastError\<close> and the next model is tried.
\<close>

fun try_models :: "env \<Rightarrow> Prompt \<Rightarrow> string list \<Rightarrow> error option \<Rightarrow> string \<times> error option" where
  "try_models e prompt [] lastError = ([], lastError)"
| "try_models e prompt (m # ms) lastError =
     (case completions_create e m prompt of
        None \<Rightarrow> try_models e prompt ms (Some (BackendError m))
      | Some content \<Rightarrow>
          if content = [] then try_models e prompt ms (Some (EmptyResponse m))
          else (content, lastError))"

definition build_prompt :: "env \<Rightarrow> state \<Rightarrow> string \<Rightarrow> number \<Rightarrow> Prompt" where
  "build_prompt e s userText chatId =
     (let accounts = (case map_of (oauthAccounts s) chatId of None \<Rightarrow> [] | Some a \<Rightarrow> a);
          accountInfo = buildAccountsAndCalendarsMessage s accounts chatId False True;
          pending = map_of (pendingEvents s) chatId;
          previousProposalText =
            (case pending of
               None \<Rightarrow> []
             | Some p \<Rightarrow>
                 if truthy (previousJSONProposal p)
                 then ''Previous JSON proposal: '' @ or_else (previousJSONProposal p) [] @
                      ''\<newline>''
                 else [])
      in \<lparr>p_currentDate = currentDate e, p_currentDay = currentDay e,
          p_accountInfo = accountInfo, p_defaultTimezone = DEFAULT_TIMEZONE e,
          p_previousProposalText = previousProposalText, p_userText = userText\<rparr>)"

definition parseEventDescription ::
  "env \<Rightarrow> state \<Rightarrow> string \<Rightarrow> number \<Rightarrow> error + (extraction \<times> string)" where
  "parseEventDescription e s userText chatId =
     (let prompt = build_prompt e s userText chatId;
          r = try_models e prompt modelPriorityOrder None;
          rawResponse = fst r;
          lastError = snd r
      in if rawResponse = []
         then Inl (case lastError of None \<Rightarrow> AllModelsFailed | Some err \<Rightarrow> err)
         else (case extractJSON rawResponse of
                 Inl err \<Rightarrow> Inl err
               | Inr jsonString \<Rightarrow>
                   (case JSON_parse e jsonString of
                      None \<Rightarrow> Inl SyntaxError
                    | Some evs \<Rightarrow> Inr (evs, jsonString))))"

section \<open>Commit\<close>

definition target_account :: "state \<Rightarrow> number \<Rightarrow> CalendarEvent \<Rightarrow> OAuthAccount option" where
  "target_account s chatId eventData =
     (let accounts = map_of (oauthAccounts s) chatId;
          oauthAccount =
            (case ev_accountId eventData of
               None \<Rightarrow> None
             | Some k \<Rightarrow>
                 if k = 0 then None
                 else (case accounts of
                         None \<Rightarrow> None
                       | Some accs \<Rightarrow> find (\<lambda>acc. accountId acc = k) accs))
      in case oauthAccount of
           Some a \<Rightarrow> Some a
         | None \<Rightarrow>
             (case accounts of
                None \<Rightarrow> None
              | Some accs \<Rightarrow> if length accs > 0 then Some (hd accs) else None))"

definition insert_request :: "env \<Rightarrow> OAuthAccount \<Rightarrow> string \<Rightarrow> CalendarEvent \<Rightarrow> InsertRequest" where
  "insert_request e oauthAccount calendarIdToUse eventData =
     \<lparr>req_auth = oauth2Client oauthAccount, req_calendarId = calendarIdToUse,
      req_summary = title eventData, req_description = description eventData,
      req_start = moment_tz_toISOString e (start_time eventData) (DEFAULT_TIMEZONE e),
      req_end = moment_tz_toISOString e (end_time eventData) (DEFAULT_TIMEZONE e)\<rparr>"

text \<open>
  The read of \<^verbatim>\<open>eventData.accountId\<close> stands before every effect and outside the
  \<^verbatim>\<open>try\<close> around the insertion, so a candidate that is \<^verbatim>\<open>null\<close> makes the function throw.
\<close>

definition addEventToCalendar :: "env \<Rightarrow> number \<Rightarrow> state \<Rightarrow> element \<Rightarrow> error + state" where
  "addEventToCalendar e chatId s el =
     (case el of
        Null \<Rightarrow> Inl TypeError
      | Object eventData \<Rightarrow>
          Inr (case target_account s chatId eventData of
                 None \<Rightarrow>
                   sendMessage s chatId
                     ''No authenticated Google account found. Use /auth to authenticate.''
               | Some oauthAccount \<Rightarrow>
                   (let calendarIdToUse = or_else (calendar eventData) ''primary''
                    in if is_disabled s chatId (accountId oauthAccount) calendarIdToUse
                       then sendMessage s chatId
                              (''Calendar '' @ calendarIdToUse @ '' for Account '' @
                               dec_string (accountId oauthAccount) @
                               '' is currently disabled. Skipping event: '' @ title eventData)
                       else
                         (let req = insert_request e oauthAccount calendarIdToUse eventData;
                              ok = events_insert e (length (inserted s)) req;
                              s1 = s\<lparr>inserted := inserted s @ [req]\<rparr>
                          in if ok
                             then sendMessage s1 chatId
                                    (''Event added to calendar ('' @ calendarIdToUse @
                                     '') for Account '' @ dec_string (accountId oauthAccount) @
                                     '': '' @ title eventData)
                             else sendMessage s1 chatId
                                    ''There was an error adding the event. Please try again.''))))"

text \<open>
  The loop \<^verbatim>\<open>for (const eventData of pending.events) await addEventToCalendar(...)\<close> over
  an array: it ends at the first call that throws, with the state reached so far.
\<close>

fun add_events :: "env \<Rightarrow> number \<Rightarrow> state \<Rightarrow> element list \<Rightarrow> error option \<times> state" where
  "add_events e chatId s [] = (None, s)"
| "add_events e chatId s (el # els) =
     (case addEventToCalendar e chatId s el of
        Inl err \<Rightarrow> (Some err, s)
      | Inr s1 \<Rightarrow> add_events e chatId s1 els)"

section \<open>Chat commands\<close>

text \<open>
  Each handler takes the state and returns the state after it, messages included. An
  exception that leaves a handler ends it with the state reached so far.
\<close>

definition disable_usage :: string where
  "disable_usage = ''Invalid format. Please use: /disable <account_id> <calendar_id>''"

definition enable_usage :: string where
  "enable_usage = ''Invalid format. Please use: /enable <account_id> <calendar_id>''"

definition command_parts :: "string \<Rightarrow> string list" where
  "command_parts args = filter (\<lambda>x. length (trim x) > 0) (split args CHR '' '')"

definition on_disable :: "env \<Rightarrow> state \<Rightarrow> number \<Rightarrow> string \<Rightarrow> state" where
  "on_disable e s chatId text =
     (let args = trim (slice text (length ''/disable''))
      in if length args = 0 then sendMessage s chatId disable_usage
         else
           (let parts = command_parts args
            in if length parts < 2 then sendMessage s chatId disable_usage
               else
                 (case parseInt (parts ! 0) None of
                    NaN \<Rightarrow> sendMessage s chatId ''Invalid account id provided.''
                  | Num acctId \<Rightarrow>
                      (case resolveCalendarId s chatId acctId (parts ! 1) True of
                         Inl err \<Rightarrow> s
                       | Inr result \<Rightarrow>
                           if \<not> success result
                           then sendMessage s chatId
                                  (or_else (errorMsg result) ''Error resolving calendar id'')
                           else
                             (let cid = realCalendarId result;
                                  userDisabled =
                                    (case map_of (disabledCalendars s) chatId of
                                       None \<Rightarrow> [] | Some obj \<Rightarrow> obj);
                                  S = (case map_of userDisabled (dec_string acctId) of
                                         None \<Rightarrow> [] | Some S0 \<Rightarrow> S0);
                                  userDisabled1 =
                                    AList.update (dec_string acctId) (Set_add S cid) userDisabled;
                                  s1 = s\<lparr>disabledCalendars :=
                                           AList.update chatId userDisabled1 (disabledCalendars s)\<rparr>;
                                  s2 = sendMessage s1 chatId
                                         (''Calendar '' @ cid @ '' for account '' @
                                          dec_string acctId @ '' has been disabled.'')
                              in saveAuthCache e s2)))))"

definition on_enable :: "env \<Rightarrow> state \<Rightarrow> number \<Rightarrow> string \<Rightarrow> state" where
  "on_enable e s chatId text =
     (let args = trim (slice text (length ''/enable''))
      in if length args = 0 then sendMessage s chatId enable_usage
         else
           (let parts = command_parts args
            in if length parts < 2 then sendMessage s chatId enable_usage
               else
                 (case parseInt (parts ! 0) None of
                    NaN \<Rightarrow> sendMessage s chatId ''Invalid account id provided.''
                  | Num acctId \<Rightarrow>
                      (case resolveCalendarId s chatId acctId (parts ! 1) True of
                         Inl err \<Rightarrow> s
                       | Inr result \<Rightarrow>
                           if \<not> success result
                           then sendMessage s chatId
                                  (or_else (errorMsg result) ''Error resolving calendar id'')
                           else
                             (let cid = realCalendarId result;
                                  userDisabled =
                                    (case map_of (disabledCalendars s) chatId of
                                       None \<Rightarrow> [] | Some obj \<Rightarrow> obj);
                                  present =
                                    (case map_of userDisabled (dec_string acctId) of
                                       None \<Rightarrow> False | Some S \<Rightarrow> Set_has S cid);
                                  userDisabled1 =
                                    (case map_of userDisabled (dec_string acctId) of
                                       None \<Rightarrow> userDisabled
                                     | Some S \<Rightarrow>
                                         if Set_has S cid
                                         then AList.update (dec_string acctId)
                                                (Set_delete S cid) userDisabled
                                         else userDisabled);
                                  s1 = sendMessage s chatId
                                         (''Calendar '' @ cid @ '' for account '' @
                                          dec_string acctId @
                                          (if present then '' has been enabled.''
                                           else '' is not disabled.''));
                                  s2 = s1\<lparr>disabledCalendars :=
                                            AList.update chatId userDisabled1
                                              (disabledCalendars s1)\<rparr>
                              in saveAuthCache e s2)))))"

definition welcome_text :: string where
  "welcome_text =
     ''Welcome! Send me a description of your calendar event and I'll help add it to your Google Calendar.\<newline>\<newline>Commands:\<newline>/auth - Authenticate with Google Calendar\<newline>/confirm - Confirm adding the proposed event(s)\<newline>/edit <new description> - Edit the proposed event(s)''"

definition on_auth :: "env \<Rightarrow> state \<Rightarrow> number \<Rightarrow> state" where
  "on_auth e s chatId =
     (let uniqueId = dec_string (Date_now e);
          st = Number_toString chatId @ '':'' @ uniqueId;
          authUrl = generateAuthUrl e st;
          s1 = s\<lparr>pendingOAuth :=
                   AList.update st \<lparr>po_chatId = chatId, po_oauth2Client = OAuth2Client []\<rparr>
                     (pendingOAuth s)\<rparr>
      in sendMessage s1 chatId
           (''Please authenticate with Google Calendar by visiting this URL: '' @ authUrl))"

definition on_confirm :: "state \<Rightarrow> number \<Rightarrow> state" where
  "on_confirm s chatId =
     (case map_of (pendingEvents s) chatId of
        None \<Rightarrow> sendMessage s chatId ''No pending events. Send an event description first.''
      | Some pending \<Rightarrow> sendMessage_keyboard s chatId ''Please confirm your events:'')"

text \<open>The description that \<^verbatim>\<open>/edit\<close> sends to the extraction.\<close>

definition combined_description :: "string \<Rightarrow> string \<Rightarrow> string \<Rightarrow> string" where
  "combined_description originalDescription latestEdit previousEdits =
     ''Original description: '' @ originalDescription @
     ''\<newline>User requested changes:\<newline>Latest edit: '' @ latestEdit @
     ''\<newline>'' @
     (if previousEdits \<noteq> []
      then ''Previously requested changes: '' @ previousEdits @ ''\<newline>''
      else [])"

definition on_edit :: "env \<Rightarrow> state \<Rightarrow> number \<Rightarrow> string \<Rightarrow> state" where
  "on_edit e s chatId text =
     (let latestEdit = trim (replace text ''/edit'' [])
      in if latestEdit = []
         then sendMessage s chatId
                ''Please provide the update changes after the /edit command.''
         else
           (case map_of (pendingEvents s) chatId of
              None \<Rightarrow>
                sendMessage s chatId
                  ''No pending events available to edit. Please provide an event description first.''
            | Some pending \<Rightarrow>
                (let originalDescription = originalText pending;
                     previousEdits = or_else (editHistory pending) [];
                     newEditHistory =
                       (if previousEdits \<noteq> [] then previousEdits @ ''\<newline>'' @ latestEdit
                        else latestEdit);
                     combinedDescription =
                       combined_description originalDescription latestEdit previousEdits
                 in case parseEventDescription e s combinedDescription chatId of
                      Inl err \<Rightarrow>
                        sendMessage s chatId
                          ''Error parsing updated event description. Please try again.''
                    | Inr r \<Rightarrow>
                        (let evs = fst r;
                             jsonProposal = snd r;
                             newPreviousJSONProposal =
                               (if truthy (previousJSONProposal pending)
                                then or_else (previousJSONProposal pending) [] @
                                     ''\<newline>'' @ jsonProposal
                                else jsonProposal);
                             s1 = s\<lparr>pendingEvents :=
                                      AList.update chatId
                                        \<lparr>events = evs, originalText = originalDescription,
                                         previousJSONProposal = Some newPreviousJSONProposal,
                                         editHistory = Some newEditHistory\<rparr>
                                        (pendingEvents s)\<rparr>
                         in case formatEventsReply evs
                                   ''If these look good, type /confirm to add the events.'' of
                              Inl err \<Rightarrow>
                                sendMessage s1 chatId
                                  ''Error parsing updated event description. Please try again.''
                            | Inr reply \<Rightarrow> sendMessage_keyboard s1 chatId reply))))"

definition on_clear :: "env \<Rightarrow> state \<Rightarrow> number \<Rightarrow> state" where
  "on_clear e s chatId =
     (let s1 = s\<lparr>oauthAccounts := AList.delete chatId (oauthAccounts s),
                 disabledCalendars := AList.delete chatId (disabledCalendars s)\<rparr>;
          s2 = saveAuthCache e s1
      in sendMessage s2 chatId
           ''All authenticated accounts have been cleared. Use /auth to authenticate again.'')"

definition on_calendars :: "state \<Rightarrow> number \<Rightarrow> string \<Rightarrow> state" where
  "on_calendars s chatId text =
     (case map_of (oauthAccounts s) chatId of
        None \<Rightarrow>
          sendMessage s chatId
            ''No authenticated calendars found. Please use /auth to connect your Google Calendar.''
      | Some accounts \<Rightarrow>
          if length accounts = 0
          then sendMessage s chatId
                 ''No authenticated calendars found. Please use /auth to connect your Google Calendar.''
          else
            (let args = trim (slice text (length ''/calendars''))
             in if args = ''enabled''
                then sendMessage s chatId
                       (''Enabled Calendars:\<newline>'' @
                        buildAccountsAndCalendarsMessage s accounts chatId True True)
                else sendMessage s chatId
                       (''Authenticated Calendars and Accounts:\<newline>'' @
                        buildAccountsAndCalendarsMessage s accounts chatId True False)))"

text \<open>A message that is no command: the pending proposal is deleted before the extraction.\<close>

definition on_free_text :: "env \<Rightarrow> state \<Rightarrow> number \<Rightarrow> string \<Rightarrow> state" where
  "on_free_text e s chatId text =
     (let s0 = s\<lparr>pendingEvents := AList.delete chatId (pendingEvents s)\<rparr>
      in case parseEventDescription e s0 text chatId of
           Inl err \<Rightarrow>
             sendMessage s0 chatId
               ''Error parsing event description. Please ensure your description is clear and try again.''
         | Inr r \<Rightarrow>
             (let evs = fst r;
                  jsonProposal = snd r;
                  s1 = s0\<lparr>pendingEvents :=
                            AList.update chatId
                              \<lparr>events = evs, originalText = text,
                               previousJSONProposal = Some jsonProposal,
                               editHistory = Some []\<rparr>
                              (pendingEvents s0)\<rparr>
              in case formatEventsReply evs
                        ''If these look good, type /confirm to add the events, or /edit to modify.'' of
                   Inl err \<Rightarrow>
                     sendMessage s1 chatId
                       ''Error parsing event description. Please ensure your description is clear and try again.''
                 | Inr reply \<Rightarrow> sendMessage_keyboard s1 chatId reply))"

text \<open>
  The handler of \<^verbatim>\<open>bot.on('message')\<close>; a message with no text is the empty string. The
  commands are tested in the order of the source.
\<close>

definition on_message :: "env \<Rightarrow> state \<Rightarrow> number \<Rightarrow> string \<Rightarrow> state" where
  "on_message e s chatId text =
     (if text = [] then s
      else if startsWith text ''/disable'' then on_disable e s chatId text
      else if startsWith text ''/enable'' then on_enable e s chatId text
      else if startsWith text ''/start'' then sendMessage s chatId welcome_text
      else if startsWith text ''/auth'' then on_auth e s chatId
      else if startsWith text ''/confirm'' then on_confirm s chatId
      else if startsWith text ''/edit'' then on_edit e s chatId text
      else if startsWith text ''/clear'' then on_clear e s chatId
      else if startsWith text ''/calendars'' then on_calendars s chatId text
      else if startsWith text ''/''
      then sendMessage s chatId
             ''Unrecognized command. Please send an event description or use a valid command.''
      else on_free_text e s chatId text)"

section \<open>Inline buttons\<close>

text \<open>
  The handler of \<^verbatim>\<open>bot.on('callback_query')\<close>. Nothing catches what the loop over the
  pending events throws: when the stored value is one object the loop throws before its
  first turn, and when a call of \<^const>\<open>addEventToCalendar\<close> throws the handler ends there;
  in both cases the deletion of the pending proposal, the closing message and the answer to
  the callback query do not happen.
\<close>

definition answerCallbackQuery :: "state \<Rightarrow> string \<Rightarrow> state" where
  "answerCallbackQuery s qid = s\<lparr>answered := answered s @ [qid]\<rparr>"

definition on_callback_query ::
  "env \<Rightarrow> state \<Rightarrow> number option \<Rightarrow> string \<Rightarrow> string \<Rightarrow> state" where
  "on_callback_query e s msg action qid =
     (case msg of
        None \<Rightarrow> s
      | Some chatId \<Rightarrow>
          if action = ''confirm''
          then (case map_of (pendingEvents s) chatId of
                  None \<Rightarrow> sendMessage s chatId ''No pending events to confirm.''
                | Some pending \<Rightarrow>
                    (case events pending of
                       JSON_object obj \<Rightarrow> s
                     | JSON_array els \<Rightarrow>
                         (let r = add_events e chatId s els;
                              s1 = snd r
                          in case fst r of
                               Some err \<Rightarrow> s1
                             | None \<Rightarrow>
                                 (let s2 = s1\<lparr>pendingEvents :=
                                                AList.delete chatId (pendingEvents s1)\<rparr>;
                                      s3 = sendMessage s2 chatId
                                             ''Events confirmed and added to your calendar.''
                                  in answerCallbackQuery s3 qid))))
          else if action = ''edit''
          then answerCallbackQuery
                 (sendMessage s chatId
                    ''Please send your updated event description using /edit command.'') qid
          else answerCallbackQuery s qid)"

section \<open>Connecting an account\<close>

datatype http_response =
  InvalidStateParameter | OAuthClientNotFound | AuthenticationSuccessful | AuthenticationError

definition oauth_failed :: "state \<Rightarrow> number \<Rightarrow> state \<times> http_response" where
  "oauth_failed s chatId =
     (sendMessage s chatId
        ''There was an error during Google Calendar authentication. Please try again.'',
      AuthenticationError)"

text \<open>
  The route \<^verbatim>\<open>/oauth2callback\<close>. The credentials are stored in the pending client as soon
  as the code is exchanged, so they stay there when a later call throws.
\<close>

definition oauth2callback :: "env \<Rightarrow> state \<Rightarrow> string \<Rightarrow> string \<Rightarrow> state \<times> http_response" where
  "oauth2callback e s code st =
     (let parts = split st CHR '':''
      in if length parts < 2 then (s, InvalidStateParameter)
         else
           (let chatId = parseInt (parts ! 0) (Some 10)
            in case map_of (pendingOAuth s) st of
                 None \<Rightarrow> (s, OAuthClientNotFound)
               | Some pending \<Rightarrow>
                   (case getToken e code of
                      None \<Rightarrow> oauth_failed s chatId
                    | Some tokens \<Rightarrow>
                        (let client = OAuth2Client tokens;
                             s0 = s\<lparr>pendingOAuth :=
                                      AList.update st (pending\<lparr>po_oauth2Client := client\<rparr>)
                                        (pendingOAuth s)\<rparr>
                         in case fetchCalendars e client of
                              Inl err \<Rightarrow> oauth_failed s0 chatId
                            | Inr cals \<Rightarrow>
                                (case userinfo_get e client of
                                   None \<Rightarrow> oauth_failed s0 chatId
                                 | Some em \<Rightarrow>
                                     (let existingAccounts =
                                            (case map_of (oauthAccounts s0) chatId of
                                               None \<Rightarrow> [] | Some a \<Rightarrow> a);
                                          newAccount =
                                            \<lparr>accountId = int (length existingAccounts) + 1,
                                             email = Some (or_else em ''Unknown Email''),
                                             oauth2Client = client, calendars = cals\<rparr>;
                                          s1 = s0\<lparr>oauthAccounts :=
                                                    AList.update chatId
                                                      (existingAccounts @ [newAccount])
                                                      (oauthAccounts s0)\<rparr>;
                                          s2 = saveAuthCache e s1;
                                          s3 = s2\<lparr>pendingOAuth :=
                                                    AList.delete st (pendingOAuth s2)\<rparr>
                                      in (s3, AuthenticationSuccessful)))))))"

section \<open>Runs of the process\<close>

datatype input =
    Message number string
  | CallbackQuery "number option" string string
  | OAuth2Callback string string
  | Restart

definition step :: "state \<Rightarrow> env \<times> input \<Rightarrow> state" where
  "step s ei =
     (case snd ei of
        Message chatId text \<Rightarrow> on_message (fst ei) s chatId text
      | CallbackQuery msg action qid \<Rightarrow> on_callback_query (fst ei) s msg action qid
      | OAuth2Callback code st \<Rightarrow> fst (oauth2callback (fst ei) s code st)
      | Restart \<Rightarrow> restart s)"

definition run :: "state \<Rightarrow> (env \<times> input) list \<Rightarrow> state" where
  "run s ins = foldl step s ins"

section \<open>Notions of the specification\<close>

text \<open>
  An opening character with a closing character somewhere after its first occurrence.
\<close>

definition has_pair :: "char \<Rightarrow> char \<Rightarrow> string \<Rightarrow> bool" where
  "has_pair a b s = (b \<in> set (drop 1 (dropWhile (\<lambda>x. x \<noteq> a) s)))"

text \<open>
  The integer that the leading characters of an identifier form, read in base ten: white
  space, one sign and then decimal digits; \<open>None\<close> when no digit stands there. An identifier
  is marked hexadecimal when \<^verbatim>\<open>0x\<close> or \<^verbatim>\<open>0X\<close> stands where the digits begin.
\<close>

definition numeric_prefix :: "string \<Rightarrow> int option" where
  "numeric_prefix s =
     (let S = dropWhile is_ws s;
          sign = (if S \<noteq> [] \<and> hd S = CHR ''-'' then - 1 else (1::int));
          S1 = (if S \<noteq> [] \<and> (hd S = CHR ''+'' \<or> hd S = CHR ''-'') then tl S else S);
          Z = takeWhile (radix_digit 10) S1
      in if Z = [] then None else Some (sign * int (radix_value 10 Z)))"

definition hex_marked :: "string \<Rightarrow> bool" where
  "hex_marked s =
     (let S = dropWhile is_ws s;
          S1 = (if S \<noteq> [] \<and> (hd S = CHR ''+'' \<or> hd S = CHR ''-'') then tl S else S)
      in take 2 S1 = ''0x'' \<or> take 2 S1 = ''0X'')"

text \<open>A conversation with one account that has two calendars.\<close>

definition two_calendars :: state where
  "two_calendars =
     init_state\<lparr>oauthAccounts :=
       [(Num 7,
         [\<lparr>accountId = 1, email = Some ''ann@example.com'',
           oauth2Client = OAuth2Client [(''access_token'', ''t1'')],
           calendars = [\<lparr>cal_id = ''ann@example.com'', cal_summary = ''Ann''\<rparr>,
                        \<lparr>cal_id = ''team@group.calendar.google.com'', cal_summary = ''Team''\<rparr>]\<rparr>])]\<rparr>"


text \<open>The state after the commit of a candidate that is an object.\<close>

definition commit_object :: "env \<Rightarrow> number \<Rightarrow> state \<Rightarrow> CalendarEvent \<Rightarrow> state" where
  "commit_object e chatId s eventData =
     (case addEventToCalendar e chatId s (Object eventData) of Inl err \<Rightarrow> s | Inr s1 \<Rightarrow> s1)"

text \<open>Two candidates, a conversation that holds them as its Session, and collaborators.\<close>

definition lunch :: CalendarEvent where
  "lunch =
     \<lparr>title = ''Lunch'', start_time = ''2025-02-19T12:00:00'', end_time = ''2025-02-19T13:00:00'',
      description = ''Lunch with Sam'', ev_accountId = Some 1, calendar = None\<rparr>"

definition standup :: CalendarEvent where
  "standup =
     \<lparr>title = ''Standup'', start_time = ''2025-02-20T09:00:00'', end_time = ''2025-02-20T09:15:00'',
      description = ''Daily standup'', ev_accountId = Some 1,
      calendar = Some ''team@group.calendar.google.com''\<rparr>"

definition dinner :: CalendarEvent where
  "dinner =
     \<lparr>title = ''Dinner'', start_time = ''2025-02-21T19:00:00'', end_time = ''2025-02-21T20:00:00'',
      description = ''Dinner with Kim'', ev_accountId = Some 1, calendar = Some ''primary''\<rparr>"

definition dinner_json :: string where
  \<open>dinner_json = ''[{"title":"Dinner","accountId":1,"calendar":"primary"}]''\<close>

definition dinner_response :: string where
  "dinner_response = ''Here is the event: '' @ dinner_json @ '' Anything else?''"

definition two_calendars_pending :: PendingEvents where
  "two_calendars_pending =
     \<lparr>events = JSON_array [Object lunch, Object standup], originalText = ''lunch with Sam tomorrow, standup on Thursday'',
      previousJSONProposal = Some ''[lunch, standup]'', editHistory = Some []\<rparr>"

definition proposed :: state where
  "proposed = two_calendars\<lparr>pendingEvents := [(Num 7, two_calendars_pending)]\<rparr>"

text \<open>
  The first model throws, the second answers nothing, the third answers with JSON inside
  prose; the first calendar insert fails and the later ones succeed.
\<close>

definition example_env :: env where
  "example_env =
     \<lparr>currentDate = ''2025-02-18'', currentDay = ''Tuesday'', DEFAULT_TIMEZONE = ''UTC'',
      completions_create =
        (\<lambda>m p. if m = ''deepseek-r1-distill-llama-70b'' then Some []
               else if m = ''deepseek-r1-distill-qwen-32b''
               then Some dinner_response
               else None),
      JSON_parse = (\<lambda>j. if j = dinner_json then Some (JSON_array [Object dinner]) else None),
      moment_tz_toISOString = (\<lambda>t z. t @ ''.000Z''),
      events_insert = (\<lambda>i r. i \<noteq> 0),
      Date_now = 1739900000000,
      generateAuthUrl = (\<lambda>st. ''https://accounts.example/o/oauth2/auth?state='' @ st),
      getToken = (\<lambda>code. if code = ''good'' then Some [(''access_token'', ''t2'')] else None),
      calendarList_list =
        (\<lambda>client. Some (Some [(Some ''bob@example.com'', Some ''Bob''), (Some ''c2'', None)])),
      userinfo_get = (\<lambda>client. Some (Some ''bob@example.com'')),
      writeFileSync_ok = True\<rparr>"

definition silent_env :: env where
  "silent_env = example_env\<lparr>completions_create := (\<lambda>m p. None)\<rparr>"






text \<open>
  Account ids that count up from one with no gap, for the accounts of every conversation in
  memory and for those of every conversation in the cache file.
\<close>

definition numbered :: "int list \<Rightarrow> bool" where
  "numbered ids = (ids = map (\<lambda>i. int i + 1) [0..<length ids])"

definition registry_numbered :: "state \<Rightarrow> bool" where
  "registry_numbered s = (\<forall>entry \<in> set (oauthAccounts s). numbered (map accountId (snd entry)))"

definition cache_numbered :: "state \<Rightarrow> bool" where
  "cache_numbered s =
     (case authCache s of
        Parsed data \<Rightarrow>
          (\<forall>entry \<in> set data.
             case cd_accounts (snd entry) of
               None \<Rightarrow> True
             | Some l \<Rightarrow> numbered (map ad_accountId l))
      | _ \<Rightarrow> True)"

definition numbering_inv :: "state \<Rightarrow> bool" where
  "numbering_inv s = (registry_numbered s \<and> cache_numbered s)"

text \<open>Two accounts are connected to one conversation, one after the other.\<close>

definition example_run :: "(env \<times> input) list" where
  "example_run =
     [(example_env, Message (Num 7) ''/auth''),
      (example_env, OAuth2Callback ''good'' ''7:1739900000000''),
      (example_env, Message (Num 7) ''/auth''),
      (example_env, OAuth2Callback ''good'' ''7:1739900000000'')]"

definition bob_account :: "int \<Rightarrow> OAuthAccount" where
  "bob_account k =
     \<lparr>accountId = k, email = Some ''bob@example.com'',
      oauth2Client = OAuth2Client [(''access_token'', ''t2'')],
      calendars = [\<lparr>cal_id = ''bob@example.com'', cal_summary = ''Bob''\<rparr>,
                   \<lparr>cal_id = ''c2'', cal_summary = ''No Title''\<rparr>]\<rparr>"

text \<open>
  What a \<^verbatim>\<open>Map\<close> and an object guarantee and the association lists do not: one entry for
  each key. The property names of a disabled object are texts of numbers, as
  \<^verbatim>\<open>userDisabled[accountId]\<close> writes them. A conversation with a disabled object has
  accounts: the commands that write the object resolve the calendar in strict mode first.
\<close>

definition canonical_key :: "string \<Rightarrow> bool" where
  "canonical_key k = (Number_toString (parseInt k None) = k)"

definition registry_wf :: "state \<Rightarrow> bool" where
  "registry_wf s =
     (distinct (map fst (oauthAccounts s)) \<and>
      set (map fst (disabledCalendars s)) \<subseteq> set (map fst (oauthAccounts s)) \<and>
      (\<forall>entry \<in> set (disabledCalendars s).
         distinct (map fst (snd entry)) \<and> (\<forall>p \<in> set (snd entry). canonical_key (fst p))))"

text \<open>A conversation with a disabled calendar, and a cache file written before disabling existed.\<close>

definition two_calendars_disabled :: state where
  "two_calendars_disabled =
     two_calendars\<lparr>disabledCalendars := [(Num 7, [(''1'', [''ann@example.com''])])]\<rparr>"

definition old_cache :: state where
  "old_cache =
     init_state\<lparr>authCache :=
       Parsed [(''7'',
                \<lparr>cd_accounts =
                   Some [\<lparr>ad_accountId = 1, ad_email = Some ''ann@example.com'',
                          ad_calendars = [\<lparr>cal_id = ''ann@example.com'', cal_summary = ''Ann''\<rparr>],
                          ad_tokens = [(''access_token'', ''t1'')]\<rparr>],
                 cd_disabledCalendars = None\<rparr>)]\<rparr>"

text \<open>The accounts that loading makes of one entry of the cache file.\<close>

definition loaded_accounts :: "string \<times> ChatData \<Rightarrow> OAuthAccount list" where
  "loaded_accounts entry =
     map load_account (case cd_accounts (snd entry) of None \<Rightarrow> [] | Some l \<Rightarrow> l)"

section \<open>The JSON payload: properties\<close>

lemma indexOf_notin: "c \<notin> set s \<Longrightarrow> indexOf s c = -1"
  by (induction s) auto

lemma indexOf_first: "c \<notin> set pre \<Longrightarrow> indexOf (pre @ c # rest) c = int (length pre)"
  by (induction pre) (auto simp: Let_def)

lemma lastIndexOf_notin: "c \<notin> set s \<Longrightarrow> lastIndexOf s c = -1"
  by (induction s) auto

lemma dropWhile_first: "a \<notin> set pre \<Longrightarrow> dropWhile (\<lambda>x. x \<noteq> a) (pre @ a # rest) = a # rest"
  by (induction pre) auto

lemma lastIndexOf_ge: "- 1 \<le> lastIndexOf s c"
  by (induction s) (auto simp: Let_def)

lemma lastIndexOf_last: "c \<notin> set post \<Longrightarrow> lastIndexOf (pre @ c # post) c = int (length pre)"
  by (induction pre) (auto simp: Let_def lastIndexOf_notin)

lemma substring_middle:
  "substring (pre @ mid @ post) (int (length pre)) (int (length pre) + int (length mid)) = mid"
  by (simp add: substring_def Let_def min_def max_def)

lemma has_pair_decomp:
  assumes "a \<noteq> b"
  shows "has_pair a b s \<longleftrightarrow>
         (\<exists>pre mid post. s = pre @ a # mid @ b # post \<and> a \<notin> set pre \<and> b \<notin> set post)"
proof
  assume "has_pair a b s"
  then have b: "b \<in> set (drop 1 (dropWhile (\<lambda>x. x \<noteq> a) s))" by (simp add: has_pair_def)
  define pre where "pre = takeWhile (\<lambda>x. x \<noteq> a) s"
  define r where "r = dropWhile (\<lambda>x. x \<noteq> a) s"
  have s: "s = pre @ r" by (simp add: pre_def r_def)
  have pre: "a \<notin> set pre" unfolding pre_def by (auto dest: set_takeWhileD)
  from b have "drop 1 r \<noteq> []" by (auto simp: r_def)
  then have "r \<noteq> []" by auto
  then have "hd r = a" unfolding r_def using hd_dropWhile[of "\<lambda>x. x \<noteq> a" s] by auto
  with \<open>r \<noteq> []\<close> obtain t where r: "r = a # t" by (cases r) auto
  with b have "b \<in> set t" by (simp add: r_def)
  then obtain mid post where t: "t = mid @ b # post" "b \<notin> set post"
    by (meson split_list_last)
  show "\<exists>pre mid post. s = pre @ a # mid @ b # post \<and> a \<notin> set pre \<and> b \<notin> set post"
    using s r t pre by blast
next
  assume "\<exists>pre mid post. s = pre @ a # mid @ b # post \<and> a \<notin> set pre \<and> b \<notin> set post"
  then obtain pre mid post where s: "s = pre @ a # mid @ b # post" and pre: "a \<notin> set pre" by blast
  have "dropWhile (\<lambda>x. x \<noteq> a) s = a # mid @ b # post"
    unfolding s using pre by (rule dropWhile_first)
  then show "has_pair a b s" by (simp add: has_pair_def)
qed

lemma span_found:
  assumes "a \<noteq> b" "a \<notin> set pre" "b \<notin> set post"
  shows "indexOf (pre @ a # mid @ b # post) a = int (length pre)"
    and "lastIndexOf (pre @ a # mid @ b # post) b = int (length pre) + 1 + int (length mid)"
proof -
  show "indexOf (pre @ a # mid @ b # post) a = int (length pre)"
    using assms(2) by (rule indexOf_first)
  have "lastIndexOf ((pre @ a # mid) @ b # post) b = int (length (pre @ a # mid))"
    using assms(3) by (rule lastIndexOf_last)
  then show "lastIndexOf (pre @ a # mid @ b # post) b = int (length pre) + 1 + int (length mid)"
    by simp
qed

lemma substring_span:
  "substring (pre @ a # mid @ b # post) (int (length pre)) (int (length pre) + 1 + int (length mid) + 1)
     = a # mid @ [b]"
  using substring_middle[of pre "a # mid @ [b]" post] by (simp add: add.assoc)

lemma no_pair_cond:
  assumes "a \<noteq> b" "\<not> has_pair a b s"
  shows "indexOf s a = -1 \<or> lastIndexOf s b = -1 \<or> lastIndexOf s b \<le> indexOf s a"
proof (rule ccontr)
  assume c: "\<not> ?thesis"
  then have ia: "indexOf s a \<noteq> -1" and ib: "lastIndexOf s b \<noteq> -1" and lt: "indexOf s a < lastIndexOf s b"
    by auto
  from ia have "a \<in> set s" using indexOf_notin by blast
  then obtain pre rest where s: "s = pre @ a # rest" "a \<notin> set pre" by (meson split_list_first)
  then have i: "indexOf s a = int (length pre)" by (simp add: indexOf_first)
  have "b \<in> set rest"
  proof (rule ccontr)
    assume nb: "b \<notin> set rest"
    show False
    proof (cases "b \<in> set pre")
      case False
      with nb assms(1) have "b \<notin> set s" using s by auto
      then show False using ib lastIndexOf_notin by blast
    next
      case True
      then obtain p1 p2 where p: "pre = p1 @ b # p2" "b \<notin> set p2" by (meson split_list_last)
      have "lastIndexOf (p1 @ b # (p2 @ a # rest)) b = int (length p1)"
        by (rule lastIndexOf_last) (use p nb assms(1) in auto)
      then have "lastIndexOf s b = int (length p1)" using s p by simp
      with lt i p show False by simp
    qed
  qed
  then have "has_pair a b s" unfolding has_pair_def s(1) by (simp add: dropWhile_first[OF s(2)])
  with assms(2) show False by simp
qed

text \<open>
  Claim C6. When the response has a \<^verbatim>\<open>[\<close> with a \<^verbatim>\<open>]\<close> after it, the result is the
  text from the first \<^verbatim>\<open>[\<close> to the last \<^verbatim>\<open>]\<close>; otherwise, when it has a \<^verbatim>\<open>{\<close> with a
  \<^verbatim>\<open>}\<close> after it, the text from the first \<^verbatim>\<open>{\<close> to the last \<^verbatim>\<open>}\<close>; otherwise the
  call fails with the error for no JSON. The last two conjuncts say what having such a pair
  means.
\<close>

theorem extractJSON_outermost_span:
  "(\<forall>pre mid post. response = pre @ CHR ''['' # mid @ CHR '']'' # post \<and>
        CHR ''['' \<notin> set pre \<and> CHR '']'' \<notin> set post \<longrightarrow>
        extractJSON response = Inr (CHR ''['' # mid @ '']'')) \<and>
   (\<forall>pre mid post. \<not> has_pair CHR ''['' CHR '']'' response \<and>
        response = pre @ CHR ''{'' # mid @ CHR ''}'' # post \<and>
        CHR ''{'' \<notin> set pre \<and> CHR ''}'' \<notin> set post \<longrightarrow>
        extractJSON response = Inr (CHR ''{'' # mid @ ''}'')) \<and>
   (\<not> has_pair CHR ''['' CHR '']'' response \<and> \<not> has_pair CHR ''{'' CHR ''}'' response \<longrightarrow>
        extractJSON response = Inl NoValidJSON) \<and>
   (has_pair CHR ''['' CHR '']'' response \<longleftrightarrow>
      (\<exists>pre mid post. response = pre @ CHR ''['' # mid @ CHR '']'' # post \<and>
          CHR ''['' \<notin> set pre \<and> CHR '']'' \<notin> set post)) \<and>
   (has_pair CHR ''{'' CHR ''}'' response \<longleftrightarrow>
      (\<exists>pre mid post. response = pre @ CHR ''{'' # mid @ CHR ''}'' # post \<and>
          CHR ''{'' \<notin> set pre \<and> CHR ''}'' \<notin> set post))"
proof (intro conjI allI impI)
  fix pre mid post
  assume h: "response = pre @ CHR ''['' # mid @ CHR '']'' # post \<and>
        CHR ''['' \<notin> set pre \<and> CHR '']'' \<notin> set post"
  have ne: "CHR ''['' \<noteq> CHR '']''" by simp
  from h span_found[OF ne, of pre post mid] substring_span[of pre "CHR ''[''" mid "CHR '']''" post]
  show "extractJSON response = Inr (CHR ''['' # mid @ '']'')"
    by (simp add: extractJSON_def Let_def)
next
  fix pre mid post
  assume h: "\<not> has_pair CHR ''['' CHR '']'' response \<and>
        response = pre @ CHR ''{'' # mid @ CHR ''}'' # post \<and>
        CHR ''{'' \<notin> set pre \<and> CHR ''}'' \<notin> set post"
  have ne: "CHR ''{'' \<noteq> CHR ''}''" by simp
  have nb: "indexOf response CHR ''['' = -1 \<or> lastIndexOf response CHR '']'' = -1 \<or>
            lastIndexOf response CHR '']'' \<le> indexOf response CHR ''[''"
    by (rule no_pair_cond) (use h in auto)
  from h have r: "response = pre @ CHR ''{'' # mid @ CHR ''}'' # post" by simp
  from h span_found[OF ne, of pre post mid] substring_span[of pre "CHR ''{''" mid "CHR ''}''" post] nb
  show "extractJSON response = Inr (CHR ''{'' # mid @ ''}'')"
    unfolding extractJSON_def Let_def r by auto
next
  assume h: "\<not> has_pair CHR ''['' CHR '']'' response \<and> \<not> has_pair CHR ''{'' CHR ''}'' response"
  have nb: "indexOf response CHR ''['' = -1 \<or> lastIndexOf response CHR '']'' = -1 \<or>
            lastIndexOf response CHR '']'' \<le> indexOf response CHR ''[''"
    by (rule no_pair_cond) (use h in auto)
  have nc: "indexOf response CHR ''{'' = -1 \<or> lastIndexOf response CHR ''}'' = -1 \<or>
            lastIndexOf response CHR ''}'' \<le> indexOf response CHR ''{''"
    by (rule no_pair_cond) (use h in auto)
  from nb nc show "extractJSON response = Inl NoValidJSON"
    unfolding extractJSON_def Let_def by auto
next
  show "has_pair CHR ''['' CHR '']'' response \<longleftrightarrow>
      (\<exists>pre mid post. response = pre @ CHR ''['' # mid @ CHR '']'' # post \<and>
          CHR ''['' \<notin> set pre \<and> CHR '']'' \<notin> set post)"
    by (rule has_pair_decomp) simp
next
  show "has_pair CHR ''{'' CHR ''}'' response \<longleftrightarrow>
      (\<exists>pre mid post. response = pre @ CHR ''{'' # mid @ CHR ''}'' # post \<and>
          CHR ''{'' \<notin> set pre \<and> CHR ''}'' \<notin> set post)"
    by (rule has_pair_decomp) simp
qed

text \<open>The three examples of the specification.\<close>

theorem extractJSON_outermost_span_witness:
  \<open>extractJSON ''blah [ {"a":1} ] blah'' = Inr ''[ {"a":1} ]'' \<and>
   \<not> has_pair CHR ''['' CHR '']'' ''{"a":1}'' \<and>
   extractJSON ''{"a":1}'' = Inr ''{"a":1}'' \<and>
   \<not> has_pair CHR ''['' CHR '']'' ''done ] then [ open'' \<and>
   \<not> has_pair CHR ''{'' CHR ''}'' ''done ] then [ open'' \<and>
   extractJSON ''done ] then [ open'' = Inl NoValidJSON\<close>
proof -
  have 1: \<open>extractJSON ''blah [ {"a":1} ] blah'' = Inr ''[ {"a":1} ]''\<close>
    using extractJSON_outermost_span[of \<open>''blah [ {"a":1} ] blah''\<close>, THEN conjunct1, rule_format,
        of "''blah ''" \<open>'' {"a":1} ''\<close> "'' blah''"]
    by simp
  have n2: \<open>\<not> has_pair CHR ''['' CHR '']'' ''{"a":1}''\<close> by (simp add: has_pair_def)
  have 2: \<open>extractJSON ''{"a":1}'' = Inr ''{"a":1}''\<close>
    using extractJSON_outermost_span[of \<open>''{"a":1}''\<close>, THEN conjunct2, THEN conjunct1, rule_format,
        of "[]" \<open>''"a":1''\<close> "[]"] n2
    by simp
  have n3: \<open>\<not> has_pair CHR ''['' CHR '']'' ''done ] then [ open''\<close> 
           \<open>\<not> has_pair CHR ''{'' CHR ''}'' ''done ] then [ open''\<close> by (simp_all add: has_pair_def)
  have 3: \<open>extractJSON ''done ] then [ open'' = Inl NoValidJSON\<close>
    using extractJSON_outermost_span[of \<open>''done ] then [ open''\<close>] n3 by blast
  show ?thesis using 1 n2 2 n3 3 by blast
qed


section \<open>Numbers and their text: properties\<close>

lemma of_char_digit_char: "d < 10 \<Longrightarrow> (of_char (digit_char d) :: nat) = 48 + d"
  by (simp add: digit_char_def)

lemma digitValue_digit_char: "d < 10 \<Longrightarrow> digitValue (digit_char d) = Some d"
  by (simp add: digitValue_def of_char_digit_char)

lemma radix_digit_digit_char: "d < 10 \<Longrightarrow> radix_digit 10 (digit_char d)"
  by (simp add: radix_digit_def digitValue_digit_char)

lemma digit_of_digit_char: "d < 10 \<Longrightarrow> digit_of (digit_char d) = d"
  by (simp add: digit_of_def digitValue_digit_char)

lemma digit_char_neq:
  assumes "d < 10" "(of_char c :: nat) < 48 \<or> 57 < (of_char c :: nat)"
  shows "digit_char d \<noteq> c"
proof
  assume "digit_char d = c"
  then have "(of_char c :: nat) = 48 + d" using of_char_digit_char[OF assms(1)] by simp
  with assms show False by simp
qed

lemma is_ws_code: "is_ws c \<Longrightarrow> (of_char c :: nat) < 48 \<or> 57 < (of_char c :: nat)"
  unfolding is_ws_def by auto

lemma digit_char_plain:
  assumes "d < 10"
  shows "\<not> is_ws (digit_char d)" "digit_char d \<noteq> CHR ''-''" "digit_char d \<noteq> CHR ''+''"
        "digit_char d \<noteq> CHR ''x''" "digit_char d \<noteq> CHR ''X''"
proof -
  show "\<not> is_ws (digit_char d)"
    using digit_char_neq[OF assms] is_ws_code by blast
  show "digit_char d \<noteq> CHR ''-''" by (rule digit_char_neq[OF assms]) simp
  show "digit_char d \<noteq> CHR ''+''" by (rule digit_char_neq[OF assms]) simp
  show "digit_char d \<noteq> CHR ''x''" by (rule digit_char_neq[OF assms]) simp
  show "digit_char d \<noteq> CHR ''X''" by (rule digit_char_neq[OF assms]) simp
qed

lemma digits_shape:
  "\<exists>d ds. d < 10 \<and> digits n = digit_char d # ds \<and>
     (\<forall>c \<in> set ds. \<exists>d'. d' < 10 \<and> c = digit_char d')"
proof (induction n rule: digits.induct)
  case (1 n)
  show ?case
  proof (cases "n < 10")
    case True
    then show ?thesis by (subst digits.simps) auto
  next
    case False
    with 1 obtain d ds where h: "d < 10" "digits (n div 10) = digit_char d # ds"
        "\<forall>c \<in> set ds. \<exists>d'. d' < 10 \<and> c = digit_char d'" by blast
    have m: "\<exists>d'. d' < 10 \<and> digit_char (n mod 10) = digit_char d'"
      by (rule exI[of _ "n mod 10"]) simp
    have "digits n = digit_char d # (ds @ [digit_char (n mod 10)])"
      using False h(2) by (subst digits.simps) simp
    moreover have "\<forall>c \<in> set (ds @ [digit_char (n mod 10)]). \<exists>d'. d' < 10 \<and> c = digit_char d'"
      using h(3) m by auto
    ultimately show ?thesis using h(1) by blast
  qed
qed

lemma digits_all_decimal:
  assumes "c \<in> set (digits n)"
  shows "radix_digit 10 c"
proof -
  obtain d ds where h: "d < 10" "digits n = digit_char d # ds"
        "\<forall>c \<in> set ds. \<exists>d'. d' < 10 \<and> c = digit_char d'" using digits_shape by blast
  from assms h(2) have "c = digit_char d \<or> c \<in> set ds" by simp
  with h(1,3) obtain d' where "d' < 10" "c = digit_char d'" by blast
  then show ?thesis by (simp add: radix_digit_digit_char)
qed

lemma radix_value_snoc: "radix_value R (Z @ [c]) = radix_value R Z * R + digit_of c"
  by (simp add: radix_value_def)

lemma radix_value_digits: "radix_value 10 (digits n) = n"
proof (induction n rule: digits.induct)
  case (1 n)
  show ?case
  proof (cases "n < 10")
    case True
    then show ?thesis by (subst digits.simps) (simp add: radix_value_def digit_of_digit_char)
  next
    case False
    have "radix_value 10 (digits n) =
          radix_value 10 (digits (n div 10)) * 10 + digit_of (digit_char (n mod 10))"
      using False by (subst digits.simps) (simp add: radix_value_snoc)
    also have "\<dots> = (n div 10) * 10 + n mod 10"
      using 1 False by (simp add: digit_of_digit_char)
    finally show ?thesis by simp
  qed
qed

lemma takeWhile_digits: "takeWhile (radix_digit 10) (digits n) = digits n"
  using digits_all_decimal by (simp add: takeWhile_eq_all_conv)

lemma digits_second:
  assumes "digits n = a # b # rest"
  shows "b \<noteq> CHR ''x'' \<and> b \<noteq> CHR ''X''"
proof -
  obtain d ds where h: "d < 10" "digits n = digit_char d # ds"
        "\<forall>c \<in> set ds. \<exists>d'. d' < 10 \<and> c = digit_char d'" using digits_shape by blast
  have "digit_char d # ds = a # b # rest" by (rule trans[OF h(2)[symmetric] assms])
  then have "b \<in> set ds" by auto
  with h(3) obtain d' where "d' < 10" "b = digit_char d'" by blast
  then show ?thesis using digit_char_plain(4)[of d'] digit_char_plain(5)[of d'] by simp
qed

lemma digits_no_hex: "take 2 (digits n) \<noteq> [CHR ''0'', x] \<or> (x \<noteq> CHR ''x'' \<and> x \<noteq> CHR ''X'')"
proof (cases "digits n")
  case Nil then show ?thesis by simp
next
  case (Cons a t)
  show ?thesis
  proof (cases t)
    case Nil with Cons show ?thesis by simp
  next
    case (Cons b rest)
    with \<open>digits n = a # t\<close> digits_second[of n a b rest] show ?thesis by auto
  qed
qed

lemma digits_head:
  obtains d ds where "d < 10" "digits n = digit_char d # ds"
  using digits_shape[of n] by auto

lemma parseInt_digits:
  assumes "radix = None \<or> radix = Some 10"
  shows "parseInt (digits n) radix = Num (int n)"
proof -
  obtain d ds where h: "d < 10" "digits n = digit_char d # ds" by (rule digits_head)
  have ne: "digits n \<noteq> []" using h by simp
  have hd: "hd (digits n) = digit_char d" using h by simp
  have ws: "dropWhile is_ws (digits n) = digits n"
    using h digit_char_plain(1)[OF h(1)] by simp
  have sg: "hd (digits n) \<noteq> CHR ''-''" "hd (digits n) \<noteq> CHR ''+''"
    using hd digit_char_plain(2,3)[OF h(1)] by simp_all
  have nh: "take 2 (digits n) \<noteq> ''0x''" "take 2 (digits n) \<noteq> ''0X''"
    using digits_no_hex[of n "CHR ''x''"] digits_no_hex[of n "CHR ''X''"] by simp_all
  have "parseInt (digits n) radix =
        (let Z = takeWhile (radix_digit 10) (digits n)
         in if Z = [] then NaN else Num (int (radix_value 10 Z)))"
    using assms unfolding parseInt_def Let_def ws
    by (auto simp: ne sg nh)
  then show ?thesis
    by (simp add: takeWhile_digits radix_value_digits ne)
qed

lemma parseInt_neg_digits:
  assumes "radix = None \<or> radix = Some 10"
  shows "parseInt (CHR ''-'' # digits n) radix = Num (- int n)"
proof -
  have ne: "digits n \<noteq> []" by (rule digits_head[of n]) simp
  have ws: "dropWhile is_ws (CHR ''-'' # digits n) = CHR ''-'' # digits n"
    by (simp add: is_ws_def)
  have nh: "take 2 (digits n) \<noteq> ''0x''" "take 2 (digits n) \<noteq> ''0X''"
    using digits_no_hex[of n "CHR ''x''"] digits_no_hex[of n "CHR ''X''"] by simp_all
  have "parseInt (CHR ''-'' # digits n) radix =
        (let Z = takeWhile (radix_digit 10) (digits n)
         in if Z = [] then NaN else Num (- int (radix_value 10 Z)))"
    using assms unfolding parseInt_def Let_def ws
    by (auto simp: nh)
  then show ?thesis
    by (simp add: takeWhile_digits radix_value_digits ne)
qed

lemma parseInt_dec_string:
  assumes "radix = None \<or> radix = Some 10"
  shows "parseInt (dec_string k) radix = Num k"
proof (cases "k < 0")
  case True
  then show ?thesis using parseInt_neg_digits[OF assms, of "nat (- k)"] by (simp add: dec_string_def)
next
  case False
  then show ?thesis using parseInt_digits[OF assms, of "nat k"] by (simp add: dec_string_def)
qed

lemma parseInt_NaN_text: "parseInt ''NaN'' (Some 10) = NaN"
  by (simp add: parseInt_def Let_def is_ws_def radix_digit_def digitValue_def)

lemma parseInt_Number_toString: "parseInt (Number_toString x) (Some 10) = x"
  by (cases x) (simp_all add: Number_toString_def parseInt_NaN_text parseInt_dec_string)

lemma dec_string_inj:
  assumes "dec_string a = dec_string b"
  shows "a = b"
proof -
  have "Num a = parseInt (dec_string a) None" by (simp add: parseInt_dec_string)
  also have "\<dots> = parseInt (dec_string b) None" by (simp only: assms)
  also have "\<dots> = Num b" by (simp add: parseInt_dec_string)
  finally show ?thesis by simp
qed

lemma Number_toString_inj:
  assumes "Number_toString a = Number_toString b"
  shows "a = b"
proof -
  have "a = parseInt (Number_toString a) (Some 10)" by (simp add: parseInt_Number_toString)
  also have "\<dots> = parseInt (Number_toString b) (Some 10)" by (simp only: assms)
  also have "\<dots> = b" by (simp add: parseInt_Number_toString)
  finally show ?thesis .
qed

section \<open>Calendar references: properties\<close>

lemma parseInt_no_hex:
  "\<not> hex_marked s \<Longrightarrow>
   parseInt s None = (case numeric_prefix s of None \<Rightarrow> NaN | Some k \<Rightarrow> Num k)"
  by (simp add: parseInt_def numeric_prefix_def hex_marked_def Let_def)

lemma resolve_found_NaN:
  assumes "map_of (oauthAccounts s) chatId = Some accounts"
    and "find (\<lambda>acc. accountId acc = acctId) accounts = Some account"
    and "parseInt ident None = NaN"
  shows "resolveCalendarId s chatId acctId ident strict = Inr (resolved ident)"
  using assms by (simp add: resolveCalendarId_def)

lemma resolve_found_in_range:
  assumes "map_of (oauthAccounts s) chatId = Some accounts"
    and "find (\<lambda>acc. accountId acc = acctId) accounts = Some account"
    and "parseInt ident None = Num k"
    and "1 \<le> k" "k \<le> int (length (calendars account))"
  shows "resolveCalendarId s chatId acctId ident strict =
         Inr (resolved (cal_id (calendars account ! nat (k - 1))))"
  using assms by (simp add: resolveCalendarId_def array_get_def)

lemma resolve_found_out_of_range_strict:
  assumes "map_of (oauthAccounts s) chatId = Some accounts"
    and "find (\<lambda>acc. accountId acc = acctId) accounts = Some account"
    and "parseInt ident None = Num k"
    and "k < 1 \<or> int (length (calendars account)) < k"
  shows "resolveCalendarId s chatId acctId ident True =
         Inr (failed (''Invalid calendar index. Please provide a number between 1 and '' @
                      dec_string (int (length (calendars account))) @ ''.''))"
  using assms by (auto simp: resolveCalendarId_def)

lemma resolve_found_out_of_range_nonstrict:
  assumes "map_of (oauthAccounts s) chatId = Some accounts"
    and "find (\<lambda>acc. accountId acc = acctId) accounts = Some account"
    and "parseInt ident None = Num k"
    and "k < 1 \<or> int (length (calendars account)) < k"
  shows "resolveCalendarId s chatId acctId ident False = Inl TypeError"
  using assms by (auto simp: resolveCalendarId_def array_get_def)

lemma resolve_no_registry:
  assumes "map_of (oauthAccounts s) chatId = None"
  shows "resolveCalendarId s chatId acctId ident strict =
         (if strict then Inr (failed ''No authenticated accounts found.'') else Inr (resolved ident))"
  using assms by (simp add: resolveCalendarId_def)

lemma resolve_unknown_account:
  assumes "map_of (oauthAccounts s) chatId = Some accounts"
    and "acctId \<notin> accountId ` set accounts"
  shows "resolveCalendarId s chatId acctId ident strict =
         (if strict then Inr (failed (''Account '' @ dec_string acctId @ '' not found.''))
          else Inr (resolved ident))"
proof -
  have "find (\<lambda>acc. accountId acc = acctId) accounts = None"
    using assms(2) by (auto simp: find_None_iff)
  then show ?thesis using assms(1) by (simp add: resolveCalendarId_def)
qed


lemma dec_string_small:
  "dec_string 0 = ''0''" "dec_string 1 = ''1''" "dec_string 2 = ''2''" "dec_string 3 = ''3''"
  "dec_string 5 = ''5''"
  by code_simp+

lemma two_calendars_lookup:
  "map_of (oauthAccounts two_calendars) (Num 7) =
     Some [\<lparr>accountId = 1, email = Some ''ann@example.com'',
           oauth2Client = OAuth2Client [(''access_token'', ''t1'')],
           calendars = [\<lparr>cal_id = ''ann@example.com'', cal_summary = ''Ann''\<rparr>,
                        \<lparr>cal_id = ''team@group.calendar.google.com'', cal_summary = ''Team''\<rparr>]\<rparr>]"
  "map_of (oauthAccounts two_calendars) (Num 8) = None"
  by (simp_all add: two_calendars_def init_state_def)


text \<open>
  Claim C10, amended. For an existing account with \<open>n\<close> calendars the identifier is
  classified by \<^verbatim>\<open>parseInt\<close> with no radix: when it yields an integer \<open>k\<close> the identifier is
  the index \<open>k\<close>, resolved to the \<open>k\<close>-th calendar when \<open>1 \<le> k \<le> n\<close> and rejected in strict
  mode otherwise; when it yields \<^verbatim>\<open>NaN\<close> the identifier passes through unchanged. For an
  identifier that is not marked hexadecimal, the integer is the numeric prefix and
  \<^verbatim>\<open>NaN\<close> means there is none.
\<close>

theorem resolveCalendarId_parseInt_index:
  assumes "map_of (oauthAccounts s) chatId = Some accounts"
    and "find (\<lambda>acc. accountId acc = acctId) accounts = Some account"
  shows
  "(\<forall>k. parseInt ident None = Num k \<and> 1 \<le> k \<and> k \<le> int (length (calendars account)) \<longrightarrow>
      resolveCalendarId s chatId acctId ident strict =
        Inr (resolved (cal_id (calendars account ! nat (k - 1))))) \<and>
   (\<forall>k. parseInt ident None = Num k \<and> (k < 1 \<or> int (length (calendars account)) < k) \<longrightarrow>
      resolveCalendarId s chatId acctId ident True =
        Inr (failed (''Invalid calendar index. Please provide a number between 1 and '' @
                     dec_string (int (length (calendars account))) @ ''.''))) \<and>
   (parseInt ident None = NaN \<longrightarrow>
      resolveCalendarId s chatId acctId ident strict = Inr (resolved ident)) \<and>
   (\<not> hex_marked ident \<longrightarrow>
      parseInt ident None = (case numeric_prefix ident of None \<Rightarrow> NaN | Some k \<Rightarrow> Num k))"
proof (intro conjI allI impI)
  fix k
  assume "parseInt ident None = Num k \<and> 1 \<le> k \<and> k \<le> int (length (calendars account))"
  then show "resolveCalendarId s chatId acctId ident strict =
        Inr (resolved (cal_id (calendars account ! nat (k - 1))))"
    using assms by (intro resolve_found_in_range) auto
next
  fix k
  assume "parseInt ident None = Num k \<and> (k < 1 \<or> int (length (calendars account)) < k)"
  then show "resolveCalendarId s chatId acctId ident True =
        Inr (failed (''Invalid calendar index. Please provide a number between 1 and '' @
                     dec_string (int (length (calendars account))) @ ''.''))"
    using assms by (intro resolve_found_out_of_range_strict) auto
next
  assume "parseInt ident None = NaN"
  then show "resolveCalendarId s chatId acctId ident strict = Inr (resolved ident)"
    using assms by (intro resolve_found_NaN) auto
next
  assume "\<not> hex_marked ident"
  then show "parseInt ident None = (case numeric_prefix ident of None \<Rightarrow> NaN | Some k \<Rightarrow> Num k)"
    by (rule parseInt_no_hex)
qed

lemma two_calendars_find:
  "find (\<lambda>acc. accountId acc = 1)
     [\<lparr>accountId = 1, email = Some ''ann@example.com'',
       oauth2Client = OAuth2Client [(''access_token'', ''t1'')],
       calendars = [\<lparr>cal_id = ''ann@example.com'', cal_summary = ''Ann''\<rparr>,
                    \<lparr>cal_id = ''team@group.calendar.google.com'', cal_summary = ''Team''\<rparr>]\<rparr>] =
   Some \<lparr>accountId = 1, email = Some ''ann@example.com'',
       oauth2Client = OAuth2Client [(''access_token'', ''t1'')],
       calendars = [\<lparr>cal_id = ''ann@example.com'', cal_summary = ''Ann''\<rparr>,
                    \<lparr>cal_id = ''team@group.calendar.google.com'', cal_summary = ''Team''\<rparr>]\<rparr>"
  by simp

lemma parseInt_examples:
  "parseInt ''2abc'' None = Num 2" "parseInt ''9abc'' None = Num 9"
  "parseInt ''primary'' None = NaN" "parseInt ''0xyz'' None = NaN"
  "parseInt ''0x2'' None = Num 2" "parseInt ''5'' None = Num 5"
  by code_simp+

lemma numeric_prefix_examples:
  "numeric_prefix ''2abc'' = Some 2" "numeric_prefix ''primary'' = None"
  "numeric_prefix ''0xyz'' = Some 0" "numeric_prefix ''0x2'' = Some 0"
  "\<not> hex_marked ''2abc''" "\<not> hex_marked ''primary''"
  by code_simp+

theorem resolveCalendarId_parseInt_index_witness:
  "resolveCalendarId two_calendars (Num 7) 1 ''2abc'' True =
     Inr (resolved ''team@group.calendar.google.com'') \<and>
   resolveCalendarId two_calendars (Num 7) 1 ''2abc'' False =
     Inr (resolved ''team@group.calendar.google.com'') \<and>
   resolveCalendarId two_calendars (Num 7) 1 ''9abc'' True =
     Inr (failed ''Invalid calendar index. Please provide a number between 1 and 2.'') \<and>
   resolveCalendarId two_calendars (Num 7) 1 ''primary'' True = Inr (resolved ''primary'') \<and>
   numeric_prefix ''2abc'' = Some 2 \<and> parseInt ''2abc'' None = Num 2"
proof -
  note t = resolveCalendarId_parseInt_index[OF two_calendars_lookup(1) two_calendars_find]
  have 1: "resolveCalendarId two_calendars (Num 7) 1 ''2abc'' strict =
     Inr (resolved ''team@group.calendar.google.com'')" for strict
    using t[of "''2abc''" strict, THEN conjunct1, rule_format, of 2]
    by (simp add: parseInt_examples)
  have 2: "resolveCalendarId two_calendars (Num 7) 1 ''9abc'' True =
     Inr (failed ''Invalid calendar index. Please provide a number between 1 and 2.'')"
    using t[of "''9abc''" True, THEN conjunct2, THEN conjunct1, rule_format, of 9]
    by (simp add: parseInt_examples dec_string_small)
  have 3: "resolveCalendarId two_calendars (Num 7) 1 ''primary'' True = Inr (resolved ''primary'')"
    using t[of "''primary''" True, THEN conjunct2, THEN conjunct2, THEN conjunct1]
    by (simp add: parseInt_examples)
  have 4: "parseInt ''2abc'' None = Num 2"
    using t[of "''2abc''" True, THEN conjunct2, THEN conjunct2, THEN conjunct2]
    by (simp add: numeric_prefix_examples)
  from 1 2 3 4 numeric_prefix_examples(1) show ?thesis by (intro conjI)
qed

text \<open>
  Claim C10 as stated fails on a hexadecimal mark: \<^verbatim>\<open>0xyz\<close> begins with the integer \<open>0\<close>
  and passes through unchanged in strict mode, and \<^verbatim>\<open>0x2\<close> begins with \<open>0\<close> and is the
  index \<open>2\<close>.
\<close>

theorem numeric_prefix_hex_counterexample:
  "numeric_prefix ''0xyz'' = Some 0 \<and>
   resolveCalendarId two_calendars (Num 7) 1 ''0xyz'' True = Inr (resolved ''0xyz'') \<and>
   numeric_prefix ''0x2'' = Some 0 \<and>
   resolveCalendarId two_calendars (Num 7) 1 ''0x2'' True =
     Inr (resolved ''team@group.calendar.google.com'')"
proof -
  have 1: "resolveCalendarId two_calendars (Num 7) 1 ''0xyz'' True = Inr (resolved ''0xyz'')"
    by (rule resolve_found_NaN[OF two_calendars_lookup(1) two_calendars_find parseInt_examples(4)])
  have 2: "resolveCalendarId two_calendars (Num 7) 1 ''0x2'' True =
     Inr (resolved ''team@group.calendar.google.com'')"
    using resolve_found_in_range[OF two_calendars_lookup(1) two_calendars_find parseInt_examples(5), of True]
    by simp
  from 1 2 numeric_prefix_examples(3,4) show ?thesis by (intro conjI)
qed

text \<open>
  Claim C4. In non-strict mode a missing registry and an unknown account return the
  identifier unchanged, and an identifier that is no number passes through in both modes.
  For a numeric index outside the calendars of the account the claim does not hold: the
  read of the calendar throws.
\<close>

theorem resolveCalendarId_nonstrict:
  "(map_of (oauthAccounts s) chatId = None \<longrightarrow>
      resolveCalendarId s chatId acctId ident False = Inr (resolved ident)) \<and>
   (\<forall>accounts. map_of (oauthAccounts s) chatId = Some accounts \<and>
      acctId \<notin> accountId ` set accounts \<longrightarrow>
      resolveCalendarId s chatId acctId ident False = Inr (resolved ident)) \<and>
   (\<forall>accounts account. map_of (oauthAccounts s) chatId = Some accounts \<and>
      find (\<lambda>acc. accountId acc = acctId) accounts = Some account \<longrightarrow>
      (parseInt ident None = NaN \<longrightarrow>
         resolveCalendarId s chatId acctId ident strict = Inr (resolved ident)) \<and>
      (\<forall>k. parseInt ident None = Num k \<and> (k < 1 \<or> int (length (calendars account)) < k) \<longrightarrow>
         resolveCalendarId s chatId acctId ident False = Inl TypeError))"
proof (intro conjI allI impI)
  assume "map_of (oauthAccounts s) chatId = None"
  then show "resolveCalendarId s chatId acctId ident False = Inr (resolved ident)"
    by (simp add: resolve_no_registry)
next
  fix accounts
  assume "map_of (oauthAccounts s) chatId = Some accounts \<and> acctId \<notin> accountId ` set accounts"
  then show "resolveCalendarId s chatId acctId ident False = Inr (resolved ident)"
    using resolve_unknown_account[of s chatId accounts acctId ident False] by simp
next
  fix accounts account
  assume a: "map_of (oauthAccounts s) chatId = Some accounts \<and>
      find (\<lambda>acc. accountId acc = acctId) accounts = Some account"
    and n: "parseInt ident None = NaN"
  show "resolveCalendarId s chatId acctId ident strict = Inr (resolved ident)"
    using a n by (intro resolve_found_NaN) auto
next
  fix accounts account k
  assume a: "map_of (oauthAccounts s) chatId = Some accounts \<and>
      find (\<lambda>acc. accountId acc = acctId) accounts = Some account"
    and k: "parseInt ident None = Num k \<and> (k < 1 \<or> int (length (calendars account)) < k)"
  show "resolveCalendarId s chatId acctId ident False = Inl TypeError"
    using a k by (intro resolve_found_out_of_range_nonstrict) auto
qed

theorem resolveCalendarId_nonstrict_witness:
  "resolveCalendarId two_calendars (Num 7) 1 ''5'' False = Inl TypeError \<and>
   resolveCalendarId two_calendars (Num 8) 1 ''5'' False = Inr (resolved ''5'') \<and>
   resolveCalendarId two_calendars (Num 7) 1 ''primary'' False = Inr (resolved ''primary'')"
proof -
  note t = resolveCalendarId_nonstrict[of two_calendars]
  have 1: "resolveCalendarId two_calendars (Num 7) 1 ''5'' False = Inl TypeError"
    using t[of "Num 7" 1 "''5''" False, THEN conjunct2, THEN conjunct2, rule_format,
            OF conjI[OF two_calendars_lookup(1) two_calendars_find], THEN conjunct2, rule_format, of 5]
    by (simp add: parseInt_examples)
  have 2: "resolveCalendarId two_calendars (Num 8) 1 ''5'' False = Inr (resolved ''5'')"
    using t[of "Num 8" 1 "''5''" False, THEN conjunct1] by (simp add: two_calendars_lookup)
  have 3: "resolveCalendarId two_calendars (Num 7) 1 ''primary'' False = Inr (resolved ''primary'')"
    using t[of "Num 7" 1 "''primary''" False, THEN conjunct2, THEN conjunct2, rule_format,
            OF conjI[OF two_calendars_lookup(1) two_calendars_find], THEN conjunct1]
    by (simp add: parseInt_examples)
  from 1 2 3 show ?thesis by (intro conjI)
qed

section \<open>Commit: properties\<close>

lemma sendMessage_fields [simp]:
  "pendingEvents (sendMessage s c m) = pendingEvents s"
  "oauthAccounts (sendMessage s c m) = oauthAccounts s"
  "pendingOAuth (sendMessage s c m) = pendingOAuth s"
  "disabledCalendars (sendMessage s c m) = disabledCalendars s"
  "authCache (sendMessage s c m) = authCache s"
  "inserted (sendMessage s c m) = inserted s"
  "answered (sendMessage s c m) = answered s"
  "sent (sendMessage s c m) = sent s @ [(c, m, False)]"
  by (simp_all add: sendMessage_def)

lemma sendMessage_keyboard_fields [simp]:
  "pendingEvents (sendMessage_keyboard s c m) = pendingEvents s"
  "oauthAccounts (sendMessage_keyboard s c m) = oauthAccounts s"
  "pendingOAuth (sendMessage_keyboard s c m) = pendingOAuth s"
  "disabledCalendars (sendMessage_keyboard s c m) = disabledCalendars s"
  "authCache (sendMessage_keyboard s c m) = authCache s"
  "inserted (sendMessage_keyboard s c m) = inserted s"
  "answered (sendMessage_keyboard s c m) = answered s"
  "sent (sendMessage_keyboard s c m) = sent s @ [(c, m, True)]"
  by (simp_all add: sendMessage_keyboard_def)


lemma target_account_cong:
  "oauthAccounts s' = oauthAccounts s \<Longrightarrow>
   target_account s' chatId ev = target_account s chatId ev"
  by (simp add: target_account_def)



lemma addEvent_object:
  "addEventToCalendar e chatId s (Object ev) = Inr (commit_object e chatId s ev)"
  by (simp add: commit_object_def addEventToCalendar_def)

lemma addEvent_null: "addEventToCalendar e chatId s Null = Inl TypeError"
  by (simp add: addEventToCalendar_def)

lemma addEvent_frame:
  "pendingEvents (commit_object e chatId s ev) = pendingEvents s"
  "oauthAccounts (commit_object e chatId s ev) = oauthAccounts s"
  "pendingOAuth (commit_object e chatId s ev) = pendingOAuth s"
  "disabledCalendars (commit_object e chatId s ev) = disabledCalendars s"
  "authCache (commit_object e chatId s ev) = authCache s"
  "answered (commit_object e chatId s ev) = answered s"
  by (simp_all add: commit_object_def addEventToCalendar_def Let_def split: option.splits)



lemma fold_addEvent_frame:
  "pendingEvents (foldl (commit_object e chatId) s evs) = pendingEvents s \<and>
   oauthAccounts (foldl (commit_object e chatId) s evs) = oauthAccounts s \<and>
   pendingOAuth (foldl (commit_object e chatId) s evs) = pendingOAuth s \<and>
   disabledCalendars (foldl (commit_object e chatId) s evs) = disabledCalendars s \<and>
   authCache (foldl (commit_object e chatId) s evs) = authCache s \<and>
   answered (foldl (commit_object e chatId) s evs) = answered s"
  by (induction evs arbitrary: s) (simp_all add: addEvent_frame)



lemma add_events_objects:
  "add_events e chatId s (map Object evs) = (None, foldl (commit_object e chatId) s evs)"
  by (induction evs arbitrary: s) (simp_all add: addEvent_object)

lemma add_events_null:
  "add_events e chatId s (map Object evs @ Null # rest) =
     (Some TypeError, foldl (commit_object e chatId) s evs)"
  by (induction evs arbitrary: s) (simp_all add: addEvent_object addEvent_null)

lemma elements_cases:
  "(\<exists>evs. els = map Object evs) \<or> (\<exists>evs rest. els = map Object evs @ Null # rest)"
proof (induction els)
  case Nil
  show ?case by simp
next
  case (Cons el els)
  show ?case
  proof (cases el)
    case Null
    then have "el # els = map Object [] @ Null # els" by simp
    then have "\<exists>evs rest. el # els = map Object evs @ Null # rest" by (intro exI)
    then show ?thesis by (rule disjI2)
  next
    case (Object ev)
    from Cons show ?thesis
    proof
      assume "\<exists>evs. els = map Object evs"
      then obtain evs where "els = map Object evs" ..
      then have "el # els = map Object (ev # evs)" using Object by simp
      then have "\<exists>evs. el # els = map Object evs" by (rule exI)
      then show ?thesis by (rule disjI1)
    next
      assume "\<exists>evs rest. els = map Object evs @ Null # rest"
      then obtain evs rest where "els = map Object evs @ Null # rest" by blast
      then have "el # els = map Object (ev # evs) @ Null # rest" using Object by simp
      then have "\<exists>evs rest. el # els = map Object evs @ Null # rest" by (intro exI)
      then show ?thesis by (rule disjI2)
    qed
  qed
qed

lemma add_events_state:
  "\<exists>evs. snd (add_events e chatId s els) = foldl (commit_object e chatId) s evs"
  using elements_cases[of els] by (auto simp: add_events_objects add_events_null)

lemma add_events_frame:
  "pendingEvents (snd (add_events e chatId s els)) = pendingEvents s"
  "oauthAccounts (snd (add_events e chatId s els)) = oauthAccounts s"
  "pendingOAuth (snd (add_events e chatId s els)) = pendingOAuth s"
  "disabledCalendars (snd (add_events e chatId s els)) = disabledCalendars s"
  "authCache (snd (add_events e chatId s els)) = authCache s"
  "answered (snd (add_events e chatId s els)) = answered s"
  using add_events_state[of e chatId s els] fold_addEvent_frame[of e chatId s]
  by auto

section \<open>Chat commands: properties\<close>

lemma startsWith_append: "startsWith s p \<longleftrightarrow> (\<exists>r. s = p @ r)"
proof
  assume "startsWith s p"
  then have "s = p @ drop (length p) s"
    by (metis append_take_drop_id startsWith_def)
  then show "\<exists>r. s = p @ r" ..
next
  assume "\<exists>r. s = p @ r"
  then show "startsWith s p" by (auto simp: startsWith_def)
qed

lemma startsWith_head: "startsWith s (c # p) \<Longrightarrow> startsWith s [c]"
  by (cases s) (auto simp: startsWith_def)


lemma on_message_edit:
  assumes "startsWith text ''/edit''"
  shows "on_message e s chatId text = on_edit e s chatId text"
proof -
  obtain r where "text = ''/edit'' @ r" using assms startsWith_append by blast
  then show ?thesis by (simp add: on_message_def startsWith_def)
qed

lemma on_message_free_text:
  assumes "text \<noteq> []" "\<not> startsWith text ''/''"
  shows "on_message e s chatId text = on_free_text e s chatId text"
proof -
  have "\<not> startsWith text (CHR ''/'' # p)" for p
    using assms(2) startsWith_head by blast
  then show ?thesis using assms by (simp add: on_message_def)
qed

lemma replace_prefix:
  assumes "startsWith text ''/edit''"
  shows "replace text ''/edit'' [] = slice text 5"
proof -
  obtain r where "text = ''/edit'' @ r" using assms startsWith_append by blast
  then show ?thesis by (simp add: slice_def)
qed

lemma build_prompt_no_session:
  "map_of (pendingEvents s) chatId = None \<Longrightarrow>
   p_previousProposalText (build_prompt e s userText chatId) = []"
  by (simp add: build_prompt_def Let_def)

lemma map_of_delete_same: "map_of (AList.delete k al) k = None"
  by (simp add: AList.delete_conv')

lemma delete_delete_same: "AList.delete k (AList.delete k al) = AList.delete k al"
  by (simp add: delete_idem)

lemma on_free_text_forgets:
  "on_free_text e (s\<lparr>pendingEvents := AList.delete chatId (pendingEvents s)\<rparr>) chatId text =
   on_free_text e s chatId text"
  by (simp add: on_free_text_def delete_delete_same)


text \<open>
  Claim C2. A message with text that does not start with \<^verbatim>\<open>/\<close> is handled as if the
  conversation had no Session: the handler gives the same state from the state with the
  Session deleted, and the prompt carries no previous proposal. When the extraction
  succeeds the Session is exactly the new candidates, the new text, the new JSON and an
  empty edit history; when it fails there is no Session. No other conversation changes.
\<close>

theorem free_text_replaces_session:
  assumes "text \<noteq> []" "\<not> startsWith text ''/''"
  shows
  "on_message e s chatId text =
     on_message e (s\<lparr>pendingEvents := AList.delete chatId (pendingEvents s)\<rparr>) chatId text \<and>
   p_previousProposalText
     (build_prompt e (s\<lparr>pendingEvents := AList.delete chatId (pendingEvents s)\<rparr>) text chatId) = [] \<and>
   (\<forall>evs json.
      parseEventDescription e (s\<lparr>pendingEvents := AList.delete chatId (pendingEvents s)\<rparr>)
        text chatId = Inr (evs, json) \<longrightarrow>
      map_of (pendingEvents (on_message e s chatId text)) chatId =
        Some \<lparr>events = evs, originalText = text, previousJSONProposal = Some json,
              editHistory = Some []\<rparr>) \<and>
   (\<forall>err.
      parseEventDescription e (s\<lparr>pendingEvents := AList.delete chatId (pendingEvents s)\<rparr>)
        text chatId = Inl err \<longrightarrow>
      map_of (pendingEvents (on_message e s chatId text)) chatId = None) \<and>
   (\<forall>other. other \<noteq> chatId \<longrightarrow>
      map_of (pendingEvents (on_message e s chatId text)) other =
        map_of (pendingEvents s) other)"
proof (intro conjI allI impI)
  let ?s0 = "s\<lparr>pendingEvents := AList.delete chatId (pendingEvents s)\<rparr>"
  note m = on_message_free_text[OF assms]
  show "on_message e s chatId text = on_message e ?s0 chatId text"
    by (simp only: m on_free_text_forgets)
  show "p_previousProposalText (build_prompt e ?s0 text chatId) = []"
    by (rule build_prompt_no_session) (simp add: map_of_delete_same)
  show "map_of (pendingEvents (on_message e s chatId text)) chatId =
        Some \<lparr>events = evs, originalText = text, previousJSONProposal = Some json,
              editHistory = Some []\<rparr>"
    if "parseEventDescription e ?s0 text chatId = Inr (evs, json)" for evs json
    using that by (simp add: m on_free_text_def Let_def update_conv' split: sum.splits)
  show "map_of (pendingEvents (on_message e s chatId text)) chatId = None"
    if "parseEventDescription e ?s0 text chatId = Inl err" for err
    using that by (simp add: m on_free_text_def Let_def map_of_delete_same)
  show "map_of (pendingEvents (on_message e s chatId text)) other = map_of (pendingEvents s) other"
    if "other \<noteq> chatId" for other
    using that
    by (cases "parseEventDescription e ?s0 text chatId")
       (simp_all add: m on_free_text_def Let_def update_conv' delete_conv' split: sum.splits)
qed

text \<open>
  Claim C5. On \<^verbatim>\<open>/edit\<close> with nothing after the command but white space, the only
  effect is the notice that asks for the changes. With changes and a Session, when the
  extraction fails the only effect is the error notice: the Session is as it was.
\<close>

theorem edit_is_atomic:
  assumes "startsWith text ''/edit''"
  shows
  "(trim (slice text 5) = [] \<longrightarrow>
      on_message e s chatId text =
        sendMessage s chatId ''Please provide the update changes after the /edit command.'' \<and>
      pendingEvents (on_message e s chatId text) = pendingEvents s) \<and>
   (\<forall>pending err.
      trim (slice text 5) \<noteq> [] \<and> map_of (pendingEvents s) chatId = Some pending \<and>
      parseEventDescription e s
        (combined_description (originalText pending) (trim (slice text 5))
           (or_else (editHistory pending) [])) chatId = Inl err \<longrightarrow>
      on_message e s chatId text =
        sendMessage s chatId ''Error parsing updated event description. Please try again.'' \<and>
      pendingEvents (on_message e s chatId text) = pendingEvents s)"
proof (intro conjI allI impI)
  note m = on_message_edit[OF assms] replace_prefix[OF assms]
  show a: "on_message e s chatId text =
        sendMessage s chatId ''Please provide the update changes after the /edit command.''"
    if "trim (slice text 5) = []"
    using that by (simp add: m on_edit_def)
  show "pendingEvents (on_message e s chatId text) = pendingEvents s"
    if "trim (slice text 5) = []"
    using a[OF that] by simp
  fix pending err
  assume h: "trim (slice text 5) \<noteq> [] \<and> map_of (pendingEvents s) chatId = Some pending \<and>
      parseEventDescription e s
        (combined_description (originalText pending) (trim (slice text 5))
           (or_else (editHistory pending) [])) chatId = Inl err"
  show b: "on_message e s chatId text =
        sendMessage s chatId ''Error parsing updated event description. Please try again.''"
    using h by (simp add: m on_edit_def Let_def)
  show "pendingEvents (on_message e s chatId text) = pendingEvents s"
    using b by simp
qed

lemma proposed_session: "map_of (pendingEvents proposed) (Num 7) = Some two_calendars_pending"
  by (simp add: proposed_def)












lemma dinner_response_not_empty: "dinner_response \<noteq> []"
  by (simp add: dinner_response_def)

lemma try_models_example:
  "try_models example_env p modelPriorityOrder None =
     (dinner_response, Some (EmptyResponse ''deepseek-r1-distill-llama-70b''))"
  by (simp add: modelPriorityOrder_def example_env_def dinner_response_not_empty)

lemma extractJSON_example: "extractJSON dinner_response = Inr dinner_json"
  unfolding dinner_json_def dinner_response_def by code_simp

lemma parse_example:
  "parseEventDescription example_env s text chatId =
     Inr (JSON_array [Object dinner], dinner_json)"
proof -
  have j: "JSON_parse example_env dinner_json = Some (JSON_array [Object dinner])"
    by (simp add: example_env_def)
  show ?thesis
    unfolding parseEventDescription_def Let_def try_models_example fst_conv snd_conv
    by (simp add: extractJSON_example j dinner_response_not_empty)
qed

lemma parse_silent:
  "parseEventDescription silent_env s text chatId = Inl (BackendError ''llama-3.3-70b-versatile'')"
  by (simp add: parseEventDescription_def Let_def modelPriorityOrder_def silent_env_def)

theorem free_text_replaces_session_witness:
  "''dinner with Kim on Friday at 7pm'' \<noteq> [] \<and>
   \<not> startsWith ''dinner with Kim on Friday at 7pm'' ''/'' \<and>
   map_of (pendingEvents proposed) (Num 7) = Some two_calendars_pending \<and>
   map_of (pendingEvents (on_message example_env proposed (Num 7) ''dinner with Kim on Friday at 7pm''))
     (Num 7) =
     Some \<lparr>events = JSON_array [Object dinner], originalText = ''dinner with Kim on Friday at 7pm'',
           previousJSONProposal = Some dinner_json, editHistory = Some []\<rparr> \<and>
   map_of (pendingEvents (on_message silent_env proposed (Num 7) ''dinner with Kim on Friday at 7pm''))
     (Num 7) = None"
proof -
  let ?text = "''dinner with Kim on Friday at 7pm''"
  have a: "?text \<noteq> []" and b: "\<not> startsWith ?text ''/''" by (simp_all add: startsWith_def)
  note t = free_text_replaces_session[OF a b, of example_env proposed "Num 7"]
  note u = free_text_replaces_session[OF a b, of silent_env proposed "Num 7"]
  have 1: "map_of (pendingEvents (on_message example_env proposed (Num 7) ?text)) (Num 7) =
     Some \<lparr>events = JSON_array [Object dinner], originalText = ?text,
           previousJSONProposal = Some dinner_json, editHistory = Some []\<rparr>"
    using t parse_example by blast
  have 2: "map_of (pendingEvents (on_message silent_env proposed (Num 7) ?text)) (Num 7) = None"
    using u parse_silent by blast
  show ?thesis using a b proposed_session 1 2 by (intro conjI)
qed

theorem edit_is_atomic_witness:
  "startsWith ''/edit   '' ''/edit'' \<and> startsWith ''/edit move lunch to 1pm'' ''/edit'' \<and>
   on_message example_env proposed (Num 7) ''/edit   '' =
     sendMessage proposed (Num 7) ''Please provide the update changes after the /edit command.'' \<and>
   trim (slice ''/edit move lunch to 1pm'' 5) = ''move lunch to 1pm'' \<and>
   on_message silent_env proposed (Num 7) ''/edit move lunch to 1pm'' =
     sendMessage proposed (Num 7) ''Error parsing updated event description. Please try again.'' \<and>
   pendingEvents (on_message silent_env proposed (Num 7) ''/edit move lunch to 1pm'') =
     pendingEvents proposed"
proof -
  have a: "startsWith ''/edit   '' ''/edit''" and b: "startsWith ''/edit move lunch to 1pm'' ''/edit''"
    by (simp_all add: startsWith_def)
  have ta: "trim (slice ''/edit   '' 5) = []" by (simp add: trim_def slice_def is_ws_def)
  have tb: "trim (slice ''/edit move lunch to 1pm'' 5) = ''move lunch to 1pm''"
    by (simp add: trim_def slice_def is_ws_def)
  have 1: "on_message example_env proposed (Num 7) ''/edit   '' =
     sendMessage proposed (Num 7) ''Please provide the update changes after the /edit command.''"
    using edit_is_atomic[OF a, of example_env proposed "Num 7"] ta by blast
  have ne: "trim (slice ''/edit move lunch to 1pm'' 5) \<noteq> []" by (simp add: tb)
  note u = edit_is_atomic[OF b, of silent_env proposed "Num 7", THEN conjunct2, rule_format,
      OF conjI[OF ne conjI[OF proposed_session parse_silent]]]
  show ?thesis using a b 1 tb u by (intro conjI) blast+
qed

section \<open>The disabled-calendar guard\<close>

lemma saveAuthCache_fields [simp]:
  "pendingEvents (saveAuthCache e s) = pendingEvents s"
  "oauthAccounts (saveAuthCache e s) = oauthAccounts s"
  "pendingOAuth (saveAuthCache e s) = pendingOAuth s"
  "disabledCalendars (saveAuthCache e s) = disabledCalendars s"
  "sent (saveAuthCache e s) = sent s"
  "inserted (saveAuthCache e s) = inserted s"
  "answered (saveAuthCache e s) = answered s"
  by (simp_all add: saveAuthCache_def)

lemma on_message_disable:
  assumes "startsWith text ''/disable''"
  shows "on_message e s chatId text = on_disable e s chatId text"
proof -
  obtain r where "text = ''/disable'' @ r" using assms startsWith_append by blast
  then show ?thesis by (simp add: on_message_def startsWith_def)
qed

lemma on_disable_success:
  assumes "command_parts (trim (slice text 8)) = a # ref # rest"
    and "parseInt a None = Num acctId"
    and "resolveCalendarId s chatId acctId ref True = Inr r" and "success r"
  shows "disabledCalendars (on_disable e s chatId text) =
           AList.update chatId
             (AList.update (dec_string acctId)
                (Set_add (case map_of (case map_of (disabledCalendars s) chatId of
                                         None \<Rightarrow> [] | Some obj \<Rightarrow> obj) (dec_string acctId) of
                            None \<Rightarrow> [] | Some S0 \<Rightarrow> S0) (realCalendarId r))
                (case map_of (disabledCalendars s) chatId of None \<Rightarrow> [] | Some obj \<Rightarrow> obj))
             (disabledCalendars s)"
    and "oauthAccounts (on_disable e s chatId text) = oauthAccounts s"
    and "pendingEvents (on_disable e s chatId text) = pendingEvents s"
    and "inserted (on_disable e s chatId text) = inserted s"
proof -
  have ne: "length (trim (slice text 8)) \<noteq> 0"
  proof
    assume "length (trim (slice text 8)) = 0"
    then have t: "trim (slice text 8) = []" by simp
    have "command_parts [] = []" by (simp add: command_parts_def trim_def)
    with t assms(1) show False by simp
  qed
  have d: "on_disable e s chatId text =
      saveAuthCache e
        (sendMessage
           (s\<lparr>disabledCalendars :=
                AList.update chatId
                  (AList.update (dec_string acctId)
                     (Set_add (case map_of (case map_of (disabledCalendars s) chatId of
                                              None \<Rightarrow> [] | Some obj \<Rightarrow> obj) (dec_string acctId) of
                                 None \<Rightarrow> [] | Some S0 \<Rightarrow> S0) (realCalendarId r))
                     (case map_of (disabledCalendars s) chatId of None \<Rightarrow> [] | Some obj \<Rightarrow> obj))
                  (disabledCalendars s)\<rparr>)
           chatId
           (''Calendar '' @ realCalendarId r @ '' for account '' @ dec_string acctId @
            '' has been disabled.''))"
  proof -
    have len: "length ''/disable'' = 8" by simp
    show ?thesis
      unfolding on_disable_def len Let_def using ne assms by simp
  qed
  show "disabledCalendars (on_disable e s chatId text) =
           AList.update chatId
             (AList.update (dec_string acctId)
                (Set_add (case map_of (case map_of (disabledCalendars s) chatId of
                                         None \<Rightarrow> [] | Some obj \<Rightarrow> obj) (dec_string acctId) of
                            None \<Rightarrow> [] | Some S0 \<Rightarrow> S0) (realCalendarId r))
                (case map_of (disabledCalendars s) chatId of None \<Rightarrow> [] | Some obj \<Rightarrow> obj))
             (disabledCalendars s)"
    by (simp add: d)
  show "oauthAccounts (on_disable e s chatId text) = oauthAccounts s" by (simp add: d)
  show "pendingEvents (on_disable e s chatId text) = pendingEvents s" by (simp add: d)
  show "inserted (on_disable e s chatId text) = inserted s" by (simp add: d)
qed

lemma on_disable_is_disabled:
  assumes "command_parts (trim (slice text 8)) = a # ref # rest"
    and "parseInt a None = Num acctId"
    and "resolveCalendarId s chatId acctId ref True = Inr r" and "success r"
  shows "is_disabled (on_disable e s chatId text) chatId acctId c \<longleftrightarrow>
           c = realCalendarId r \<or> is_disabled s chatId acctId c"
  unfolding is_disabled_def on_disable_success(1)[OF assms]
  by (auto simp: update_conv' Set_has_def Set_add_def split: option.splits)

lemma addEvent_guard:
  assumes "target_account s chatId ev = Some account"
  shows "is_disabled s chatId (accountId account) (or_else (calendar ev) ''primary'') \<Longrightarrow>
           addEventToCalendar e chatId s (Object ev) =
             Inr (sendMessage s chatId
               (''Calendar '' @ or_else (calendar ev) ''primary'' @ '' for Account '' @
                dec_string (accountId account) @
                '' is currently disabled. Skipping event: '' @ title ev))"
    and "\<not> is_disabled s chatId (accountId account) (or_else (calendar ev) ''primary'') \<Longrightarrow>
           \<exists>s'. addEventToCalendar e chatId s (Object ev) = Inr s' \<and>
             inserted s' =
               inserted s @ [insert_request e account (or_else (calendar ev) ''primary'') ev]"
  using assms by (simp_all add: addEventToCalendar_def Let_def)

lemma parseInt_primary: "parseInt ''primary'' None = NaN"
  by code_simp

text \<open>
  Claim C9, amended. The guard at commit looks up the calendar text of the candidate, with
  \<^verbatim>\<open>primary\<close> for a candidate that names none, in the disabled set of the target account.
  The set holds what \<^verbatim>\<open>/disable\<close> resolved: after a successful \<^verbatim>\<open>/disable\<close> the resolved
  identifier is disabled, and the identifier \<^verbatim>\<open>primary\<close> resolves to the text \<^verbatim>\<open>primary\<close>
  itself. So a candidate with no calendar or with \<^verbatim>\<open>primary\<close> is inserted into \<^verbatim>\<open>primary\<close>
  when the text \<^verbatim>\<open>primary\<close> is not in the set, whatever other identifiers are, and is
  skipped when that text is in the set; a candidate that names another text is skipped
  exactly when the text it names is in the set.
\<close>

theorem disabled_guard_compares_literal:
  assumes "target_account s chatId ev = Some account"
  shows
  "((calendar ev = None \<or> calendar ev = Some ''primary'') \<longrightarrow>
      (\<not> is_disabled s chatId (accountId account) ''primary'' \<longrightarrow>
         (\<exists>s'. addEventToCalendar e chatId s (Object ev) = Inr s' \<and>
               inserted s' = inserted s @ [insert_request e account ''primary'' ev])) \<and>
      (is_disabled s chatId (accountId account) ''primary'' \<longrightarrow>
         addEventToCalendar e chatId s (Object ev) =
           Inr (sendMessage s chatId
             (''Calendar primary for Account '' @ dec_string (accountId account) @
              '' is currently disabled. Skipping event: '' @ title ev)))) \<and>
   (\<forall>real. calendar ev = Some real \<and> real \<noteq> [] \<longrightarrow>
      (is_disabled s chatId (accountId account) real \<longrightarrow>
         addEventToCalendar e chatId s (Object ev) =
           Inr (sendMessage s chatId
             (''Calendar '' @ real @ '' for Account '' @ dec_string (accountId account) @
              '' is currently disabled. Skipping event: '' @ title ev))) \<and>
      (is_disabled s chatId (accountId account) real \<longleftrightarrow>
         (\<exists>s'. addEventToCalendar e chatId s (Object ev) = Inr s' \<and> inserted s' = inserted s))) \<and>
   (\<forall>e0 s0 text a ref rest acctId r c.
      s = on_message e0 s0 chatId text \<and> startsWith text ''/disable'' \<and>
      command_parts (trim (slice text 8)) = a # ref # rest \<and>
      parseInt a None = Num acctId \<and>
      resolveCalendarId s0 chatId acctId ref True = Inr r \<and> success r \<longrightarrow>
      (is_disabled s chatId acctId c \<longleftrightarrow> c = realCalendarId r \<or> is_disabled s0 chatId acctId c)) \<and>
   (\<forall>s0 acctId r.
      resolveCalendarId s0 chatId acctId ''primary'' True = Inr r \<and> success r \<longrightarrow>
      realCalendarId r = ''primary'')"
proof (intro conjI allI impI)
  assume h: "calendar ev = None \<or> calendar ev = Some ''primary''"
  then have o: "or_else (calendar ev) ''primary'' = ''primary''" by (auto simp: or_else_def)
  show "\<exists>s'. addEventToCalendar e chatId s (Object ev) = Inr s' \<and>
               inserted s' = inserted s @ [insert_request e account ''primary'' ev]"
    if "\<not> is_disabled s chatId (accountId account) ''primary''"
    using addEvent_guard(2)[OF assms, of e] that o by simp
  show "addEventToCalendar e chatId s (Object ev) =
           Inr (sendMessage s chatId
             (''Calendar primary for Account '' @ dec_string (accountId account) @
              '' is currently disabled. Skipping event: '' @ title ev))"
    if "is_disabled s chatId (accountId account) ''primary''"
    using addEvent_guard(1)[OF assms, of e] that o by simp
next
  fix real
  assume h: "calendar ev = Some real \<and> real \<noteq> []"
  then have o: "or_else (calendar ev) ''primary'' = real" by (simp add: or_else_def)
  show "addEventToCalendar e chatId s (Object ev) =
           Inr (sendMessage s chatId
             (''Calendar '' @ real @ '' for Account '' @ dec_string (accountId account) @
              '' is currently disabled. Skipping event: '' @ title ev))"
    if "is_disabled s chatId (accountId account) real"
    using addEvent_guard(1)[OF assms, of e] that o by simp
  show "is_disabled s chatId (accountId account) real \<longleftrightarrow>
         (\<exists>s'. addEventToCalendar e chatId s (Object ev) = Inr s' \<and> inserted s' = inserted s)"
  proof (cases "is_disabled s chatId (accountId account) real")
    case True
    then show ?thesis using addEvent_guard(1)[OF assms, of e] o by simp
  next
    case False
    then obtain s1 where "addEventToCalendar e chatId s (Object ev) = Inr s1"
        "inserted s1 = inserted s @ [insert_request e account real ev]"
      using addEvent_guard(2)[OF assms, of e] o by auto
    then show ?thesis using False by auto
  qed
next
  fix e0 s0 msg a ref rest acctId r c
  assume h: "s = on_message e0 s0 chatId msg \<and> startsWith msg ''/disable'' \<and>
      command_parts (trim (slice msg 8)) = a # ref # rest \<and>
      parseInt a None = Num acctId \<and>
      resolveCalendarId s0 chatId acctId ref True = Inr r \<and> success r"
  then have "s = on_disable e0 s0 chatId msg" by (simp add: on_message_disable)
  then show "is_disabled s chatId acctId c \<longleftrightarrow> c = realCalendarId r \<or> is_disabled s0 chatId acctId c"
    using h on_disable_is_disabled[of msg a ref rest acctId s0 chatId r e0 c] by simp
next
  fix s0 acctId r
  assume "resolveCalendarId s0 chatId acctId ''primary'' True = Inr r \<and> success r"
  then show "realCalendarId r = ''primary''"
    unfolding resolveCalendarId_def parseInt_primary
    by (auto simp: failed_def resolved_def split: option.splits)
qed

lemma disable_first_parts:
  "startsWith ''/disable 1 1'' ''/disable''"
  "command_parts (trim (slice ''/disable 1 1'' 8)) = [''1'', ''1'']"
  "parseInt ''1'' None = Num 1"
  by code_simp+

lemma disable_first_resolved:
  "resolveCalendarId two_calendars (Num 7) 1 ''1'' True = Inr (resolved ''ann@example.com'')"
  using resolve_found_in_range[OF two_calendars_lookup(1) two_calendars_find disable_first_parts(3), of True]
  by simp

lemma disable_first_accounts:
  "oauthAccounts (on_message example_env two_calendars (Num 7) ''/disable 1 1'') =
   oauthAccounts two_calendars"
  unfolding on_message_disable[OF disable_first_parts(1)]
  by (rule on_disable_success(2)[OF disable_first_parts(2,3) disable_first_resolved])
     (simp add: resolved_def)

lemma disable_first_target:
  "target_account (on_message example_env two_calendars (Num 7) ''/disable 1 1'') (Num 7)
     (lunch\<lparr>calendar := c\<rparr>) =
   Some \<lparr>accountId = 1, email = Some ''ann@example.com'',
       oauth2Client = OAuth2Client [(''access_token'', ''t1'')],
       calendars = [\<lparr>cal_id = ''ann@example.com'', cal_summary = ''Ann''\<rparr>,
                    \<lparr>cal_id = ''team@group.calendar.google.com'', cal_summary = ''Team''\<rparr>]\<rparr>"
  unfolding target_account_cong[OF disable_first_accounts]
  by (simp add: target_account_def two_calendars_lookup lunch_def)

lemma two_calendars_none_disabled: "\<not> is_disabled two_calendars (Num 7) 1 c"
  by (simp add: is_disabled_def two_calendars_def init_state_def)

lemma disable_primary_parts:
  "startsWith ''/disable 1 primary'' ''/disable''"
  "command_parts (trim (slice ''/disable 1 primary'' 8)) = [''1'', ''primary'']"
  by code_simp+

lemma disable_primary_resolved:
  "resolveCalendarId two_calendars (Num 7) 1 ''primary'' True = Inr (resolved ''primary'')"
  by (rule resolve_found_NaN[OF two_calendars_lookup(1) two_calendars_find parseInt_primary])

lemma disable_primary_state:
  "oauthAccounts (on_message example_env two_calendars (Num 7) ''/disable 1 primary'') =
   oauthAccounts two_calendars"
  "inserted (on_message example_env two_calendars (Num 7) ''/disable 1 primary'') = []"
  "is_disabled (on_message example_env two_calendars (Num 7) ''/disable 1 primary'') (Num 7) 1 c
     \<longleftrightarrow> c = ''primary''"
proof -
  have r: "success (resolved ''primary'')" by (simp add: resolved_def)
  show "oauthAccounts (on_message example_env two_calendars (Num 7) ''/disable 1 primary'') =
   oauthAccounts two_calendars"
    unfolding on_message_disable[OF disable_primary_parts(1)]
    by (rule on_disable_success(2)[OF disable_primary_parts(2) disable_first_parts(3)
          disable_primary_resolved r])
  show "inserted (on_message example_env two_calendars (Num 7) ''/disable 1 primary'') = []"
    unfolding on_message_disable[OF disable_primary_parts(1)]
    using on_disable_success(4)[OF disable_primary_parts(2) disable_first_parts(3)
          disable_primary_resolved r, of example_env]
    by (simp add: two_calendars_def init_state_def)
  show "is_disabled (on_message example_env two_calendars (Num 7) ''/disable 1 primary'') (Num 7) 1 c
     \<longleftrightarrow> c = ''primary''"
    unfolding on_message_disable[OF disable_primary_parts(1)]
    using on_disable_is_disabled[OF disable_primary_parts(2) disable_first_parts(3)
          disable_primary_resolved r, of example_env c] two_calendars_none_disabled
    by (simp add: resolved_def)
qed

lemma disable_primary_target:
  "target_account (on_message example_env two_calendars (Num 7) ''/disable 1 primary'') (Num 7)
     (lunch\<lparr>calendar := c\<rparr>) =
   Some \<lparr>accountId = 1, email = Some ''ann@example.com'',
       oauth2Client = OAuth2Client [(''access_token'', ''t1'')],
       calendars = [\<lparr>cal_id = ''ann@example.com'', cal_summary = ''Ann''\<rparr>,
                    \<lparr>cal_id = ''team@group.calendar.google.com'', cal_summary = ''Team''\<rparr>]\<rparr>"
  unfolding target_account_cong[OF disable_primary_state(1)]
  by (simp add: target_account_def two_calendars_lookup lunch_def)

theorem disabled_guard_compares_literal_witness:
  "is_disabled (on_message example_env two_calendars (Num 7) ''/disable 1 1'') (Num 7) 1
     ''ann@example.com'' \<and>
   \<not> is_disabled (on_message example_env two_calendars (Num 7) ''/disable 1 1'') (Num 7) 1
     ''primary'' \<and>
   (\<exists>s'. addEventToCalendar example_env (Num 7)
           (on_message example_env two_calendars (Num 7) ''/disable 1 1'')
           (Object (lunch\<lparr>calendar := Some ''primary''\<rparr>)) = Inr s' \<and>
         inserted s' =
           [\<lparr>req_auth = OAuth2Client [(''access_token'', ''t1'')], req_calendarId = ''primary'',
             req_summary = ''Lunch'', req_description = ''Lunch with Sam'',
             req_start = ''2025-02-19T12:00:00.000Z'',
             req_end = ''2025-02-19T13:00:00.000Z''\<rparr>]) \<and>
   (\<exists>s'. addEventToCalendar example_env (Num 7)
           (on_message example_env two_calendars (Num 7) ''/disable 1 1'')
           (Object (lunch\<lparr>calendar := Some ''ann@example.com''\<rparr>)) = Inr s' \<and>
         inserted s' = []) \<and>
   is_disabled (on_message example_env two_calendars (Num 7) ''/disable 1 primary'') (Num 7) 1
     ''primary'' \<and>
   addEventToCalendar example_env (Num 7)
     (on_message example_env two_calendars (Num 7) ''/disable 1 primary'')
     (Object (lunch\<lparr>calendar := Some ''primary''\<rparr>)) =
     Inr (sendMessage (on_message example_env two_calendars (Num 7) ''/disable 1 primary'') (Num 7)
            ''Calendar primary for Account 1 is currently disabled. Skipping event: Lunch'')"
proof -
  let ?s = "on_message example_env two_calendars (Num 7) ''/disable 1 1''"
  let ?p = "on_message example_env two_calendars (Num 7) ''/disable 1 primary''"
  let ?acc = "\<lparr>accountId = 1, email = Some ''ann@example.com'',
       oauth2Client = OAuth2Client [(''access_token'', ''t1'')],
       calendars = [\<lparr>cal_id = ''ann@example.com'', cal_summary = ''Ann''\<rparr>,
                    \<lparr>cal_id = ''team@group.calendar.google.com'', cal_summary = ''Team''\<rparr>]\<rparr>"
  note t = disabled_guard_compares_literal[OF disable_first_target, of _ example_env]
  note v = disabled_guard_compares_literal[OF disable_primary_target, of _ example_env]
  have d: "is_disabled ?s (Num 7) 1 c \<longleftrightarrow> c = ''ann@example.com''" for c
    using t[of "Some ''primary''", THEN conjunct2, THEN conjunct2, THEN conjunct1, rule_format,
        of example_env two_calendars "''/disable 1 1''" "''1''" "''1''" "[]" 1
           "resolved ''ann@example.com''" c]
      disable_first_parts disable_first_resolved two_calendars_none_disabled
    by (simp add: resolved_def)
  have i0: "inserted ?s = []"
    unfolding on_message_disable[OF disable_first_parts(1)]
    using on_disable_success(4)[OF disable_first_parts(2,3) disable_first_resolved, of example_env]
    by (simp add: resolved_def two_calendars_def init_state_def)
  have 1: "is_disabled ?s (Num 7) 1 ''ann@example.com''" by (simp add: d)
  have 2: "\<not> is_disabled ?s (Num 7) 1 ''primary''" by (simp add: d)
  have r: "insert_request example_env ?acc ''primary'' (lunch\<lparr>calendar := Some ''primary''\<rparr>) =
     \<lparr>req_auth = OAuth2Client [(''access_token'', ''t1'')], req_calendarId = ''primary'',
       req_summary = ''Lunch'', req_description = ''Lunch with Sam'',
       req_start = ''2025-02-19T12:00:00.000Z'', req_end = ''2025-02-19T13:00:00.000Z''\<rparr>"
    by (simp add: insert_request_def example_env_def lunch_def)
  have 3: "\<exists>s'. addEventToCalendar example_env (Num 7) ?s
             (Object (lunch\<lparr>calendar := Some ''primary''\<rparr>)) = Inr s' \<and>
           inserted s' =
             [insert_request example_env ?acc ''primary'' (lunch\<lparr>calendar := Some ''primary''\<rparr>)]"
    using t[of "Some ''primary''", THEN conjunct1] 2 by (simp add: i0 lunch_def)
  have 4: "\<exists>s'. addEventToCalendar example_env (Num 7) ?s
             (Object (lunch\<lparr>calendar := Some ''ann@example.com''\<rparr>)) = Inr s' \<and>
           inserted s' = []"
    using t[of "Some ''ann@example.com''", THEN conjunct2, THEN conjunct1, rule_format,
        of "''ann@example.com''", THEN conjunct2] 1
    by (simp add: i0 lunch_def)
  have 5: "is_disabled ?p (Num 7) 1 ''primary''" by (simp add: disable_primary_state(3))
  have 6: "addEventToCalendar example_env (Num 7) ?p (Object (lunch\<lparr>calendar := Some ''primary''\<rparr>)) =
     Inr (sendMessage ?p (Num 7)
            ''Calendar primary for Account 1 is currently disabled. Skipping event: Lunch'')"
    using v[of "Some ''primary''", THEN conjunct1] 5 by (simp add: lunch_def dec_string_small)
  show ?thesis using 1 2 3[unfolded r] 4 5 6 by (intro conjI)
qed

text \<open>
  Claim C9 as stated fails after \<^verbatim>\<open>/disable 1 primary\<close>: the text \<^verbatim>\<open>primary\<close> is then in
  the disabled set of the account, and a candidate that names no calendar is skipped, while
  the identifier of the primary calendar is not in the set.
\<close>

theorem disabled_guard_primary_counterexample:
  "is_disabled (on_message example_env two_calendars (Num 7) ''/disable 1 primary'') (Num 7) 1
     ''primary'' \<and>
   \<not> is_disabled (on_message example_env two_calendars (Num 7) ''/disable 1 primary'') (Num 7) 1
     ''ann@example.com'' \<and>
   calendar lunch = None \<and>
   addEventToCalendar example_env (Num 7)
     (on_message example_env two_calendars (Num 7) ''/disable 1 primary'') (Object lunch) =
     Inr (sendMessage (on_message example_env two_calendars (Num 7) ''/disable 1 primary'') (Num 7)
            ''Calendar primary for Account 1 is currently disabled. Skipping event: Lunch'') \<and>
   inserted (sendMessage (on_message example_env two_calendars (Num 7) ''/disable 1 primary'') (Num 7)
            ''Calendar primary for Account 1 is currently disabled. Skipping event: Lunch'') = []"
proof -
  let ?p = "on_message example_env two_calendars (Num 7) ''/disable 1 primary''"
  have l: "lunch\<lparr>calendar := None\<rparr> = lunch" by (simp add: lunch_def)
  have c: "calendar lunch = None" by (simp add: lunch_def)
  have o: "or_else (calendar lunch) ''primary'' = ''primary''" by (simp add: c or_else_def)
  have 1: "is_disabled ?p (Num 7) 1 ''primary''" by (simp add: disable_primary_state(3))
  have 2: "\<not> is_disabled ?p (Num 7) 1 ''ann@example.com''" by (simp add: disable_primary_state(3))
  have 3: "addEventToCalendar example_env (Num 7) ?p (Object lunch) =
     Inr (sendMessage ?p (Num 7)
            ''Calendar primary for Account 1 is currently disabled. Skipping event: Lunch'')"
    using addEvent_guard(1)[OF disable_primary_target[of None, unfolded l], of example_env] 1
    by (simp add: dec_string_small lunch_def or_else_def)
  show ?thesis using 1 2 c 3 by (simp add: disable_primary_state(2))
qed

section \<open>Account numbering\<close>

lemma numbered_nth: "numbered ids \<Longrightarrow> i < length ids \<Longrightarrow> ids ! i = int i + 1"
proof -
  assume n: "numbered ids" and i: "i < length ids"
  have "ids ! i = map (\<lambda>i. int i + 1) [0..<length ids] ! i"
    using n unfolding numbered_def by simp
  also have "\<dots> = int i + 1" using i by simp
  finally show ?thesis .
qed

lemma numbered_Nil: "numbered []"
  by (simp add: numbered_def)

lemma numbered_snoc: "numbered ids \<Longrightarrow> numbered (ids @ [int (length ids) + 1])"
  unfolding numbered_def by simp

lemma set_update_cases: "x \<in> set (AList.update k v al) \<Longrightarrow> x = (k, v) \<or> x \<in> set al"
  by (induction al) (auto split: if_splits)

lemma set_delete_subset: "x \<in> set (AList.delete k al) \<Longrightarrow> x \<in> set al"
  by (simp add: AList.delete_eq)

lemma inv_frame:
  "oauthAccounts s' = oauthAccounts s \<Longrightarrow> authCache s' = authCache s \<Longrightarrow>
   numbering_inv s' = numbering_inv s"
  by (simp add: numbering_inv_def registry_numbered_def cache_numbered_def)

lemma cacheData_entries:
  "entry \<in> set (foldl (\<lambda>cacheData (chatId, accounts).
              AList.update (Number_toString chatId) (chat_data s chatId accounts) cacheData)
       acc xs) \<Longrightarrow>
   entry \<in> set acc \<or> (\<exists>chatId accounts. (chatId, accounts) \<in> set xs \<and>
                          snd entry = chat_data s chatId accounts)"
proof (induction xs arbitrary: acc)
  case Nil
  then show ?case by simp
next
  case (Cons x xs)
  obtain c a where x: "x = (c, a)" by (cases x)
  from Cons.prems have "entry \<in> set (foldl (\<lambda>cacheData (chatId, accounts).
              AList.update (Number_toString chatId) (chat_data s chatId accounts) cacheData)
       (AList.update (Number_toString c) (chat_data s c a) acc) xs)"
    by (simp add: x)
  from Cons.IH[OF this] show ?case
  proof
    assume "entry \<in> set (AList.update (Number_toString c) (chat_data s c a) acc)"
    then have "entry = (Number_toString c, chat_data s c a) \<or> entry \<in> set acc"
      by (rule set_update_cases)
    then show ?thesis
    proof
      assume "entry = (Number_toString c, chat_data s c a)"
      then have "(c, a) \<in> set (x # xs) \<and> snd entry = chat_data s c a" using x by simp
      then show ?thesis by blast
    next
      assume "entry \<in> set acc"
      then show ?thesis by simp
    qed
  next
    assume "\<exists>chatId accounts. (chatId, accounts) \<in> set xs \<and> snd entry = chat_data s chatId accounts"
    then show ?thesis by auto
  qed
qed

lemma chat_data_accounts:
  "cd_accounts (chat_data s chatId accounts) = Some (map account_data accounts)"
  by (simp add: chat_data_def)

lemma account_data_ids: "ad_accountId \<circ> account_data = accountId"
  by (rule ext) (simp add: account_data_def)

lemma inv_save: "numbering_inv s \<Longrightarrow> numbering_inv (saveAuthCache e s)"
proof -
  assume i: "numbering_inv s"
  show ?thesis
  proof (cases "writeFileSync_ok e")
    case False
    then show ?thesis using i by (simp add: saveAuthCache_def)
  next
    case True
    have r: "registry_numbered s" using i by (simp add: numbering_inv_def)
    have "case cd_accounts (snd entry) of None \<Rightarrow> True | Some l \<Rightarrow> numbered (map ad_accountId l)"
      if "entry \<in> set (cacheData_of s)" for entry
    proof -
      from that cacheData_entries[of entry s "[]" "oauthAccounts s"]
      obtain chatId accounts where m: "(chatId, accounts) \<in> set (oauthAccounts s)"
        and e: "snd entry = chat_data s chatId accounts"
        unfolding cacheData_of_def by auto
      from r m have "numbered (map accountId accounts)"
        unfolding registry_numbered_def by fastforce
      then show ?thesis by (simp add: e chat_data_accounts account_data_ids)
    qed
    then have "cache_numbered (saveAuthCache e s)"
      using True by (simp add: saveAuthCache_def cache_numbered_def)
    moreover have "registry_numbered (saveAuthCache e s)"
      using r by (simp add: registry_numbered_def)
    ultimately show ?thesis by (simp add: numbering_inv_def)
  qed
qed

lemma inv_sendMessage [simp]: "numbering_inv (sendMessage s c m) = numbering_inv s"
  by (rule inv_frame) simp_all

lemma inv_sendMessage_keyboard [simp]: "numbering_inv (sendMessage_keyboard s c m) = numbering_inv s"
  by (rule inv_frame) simp_all

lemma inv_updates [simp]:
  "numbering_inv (s\<lparr>pendingEvents := pe\<rparr>) = numbering_inv s"
  "numbering_inv (s\<lparr>pendingOAuth := po\<rparr>) = numbering_inv s"
  "numbering_inv (s\<lparr>disabledCalendars := dc\<rparr>) = numbering_inv s"
  by (rule inv_frame; simp)+

lemma inv_answer [simp]: "numbering_inv (answerCallbackQuery s q) = numbering_inv s"
  by (rule inv_frame) (simp_all add: answerCallbackQuery_def)

lemma inv_add_events [simp]:
  "numbering_inv (snd (add_events e chatId s els)) = numbering_inv s"
  by (rule inv_frame) (simp_all add: add_events_frame)

lemma inv_init: "numbering_inv init_state"
  by (simp add: numbering_inv_def registry_numbered_def cache_numbered_def init_state_def)

lemma on_disable_inv: "numbering_inv s \<Longrightarrow> numbering_inv (on_disable e s chatId text)"
  by (simp add: on_disable_def Let_def inv_save split: number.splits sum.splits)

lemma on_enable_inv: "numbering_inv s \<Longrightarrow> numbering_inv (on_enable e s chatId text)"
  by (simp add: on_enable_def Let_def inv_save split: number.splits sum.splits)

lemma on_auth_inv: "numbering_inv s \<Longrightarrow> numbering_inv (on_auth e s chatId)"
  by (simp add: on_auth_def Let_def)

lemma on_confirm_inv: "numbering_inv s \<Longrightarrow> numbering_inv (on_confirm s chatId)"
  by (simp add: on_confirm_def split: option.splits)

lemma on_edit_inv: "numbering_inv s \<Longrightarrow> numbering_inv (on_edit e s chatId text)"
  by (simp add: on_edit_def Let_def split: option.splits sum.splits)

lemma on_calendars_inv: "numbering_inv s \<Longrightarrow> numbering_inv (on_calendars s chatId text)"
  by (simp add: on_calendars_def Let_def split: option.splits)

lemma on_free_text_inv: "numbering_inv s \<Longrightarrow> numbering_inv (on_free_text e s chatId text)"
  by (simp add: on_free_text_def Let_def split: sum.splits)

lemma inv_delete_accounts:
  assumes "numbering_inv s"
  shows "numbering_inv (s\<lparr>oauthAccounts := AList.delete c (oauthAccounts s),
                            disabledCalendars := d\<rparr>)"
  using assms set_delete_subset[of _ c "oauthAccounts s"]
  by (auto simp: numbering_inv_def registry_numbered_def cache_numbered_def)

lemma on_clear_inv:
  assumes "numbering_inv s"
  shows "numbering_inv (on_clear e s chatId)"
proof -
  have "numbering_inv
          (saveAuthCache e
             (s\<lparr>oauthAccounts := AList.delete chatId (oauthAccounts s),
                disabledCalendars := AList.delete chatId (disabledCalendars s)\<rparr>))"
    by (rule inv_save) (rule inv_delete_accounts[OF assms])
  then show ?thesis by (simp add: on_clear_def Let_def)
qed

lemma on_message_inv: "numbering_inv s \<Longrightarrow> numbering_inv (on_message e s chatId text)"
  by (simp add: on_message_def on_disable_inv on_enable_inv on_auth_inv on_confirm_inv
      on_edit_inv on_clear_inv on_calendars_inv on_free_text_inv)

lemma on_callback_query_inv:
  "numbering_inv s \<Longrightarrow> numbering_inv (on_callback_query e s msg action qid)"
  by (simp add: on_callback_query_def Let_def split: option.splits extraction.splits)

lemma inv_register:
  assumes "numbering_inv s"
    and "existing = (case map_of (oauthAccounts s) chatId of None \<Rightarrow> [] | Some a \<Rightarrow> a)"
    and "accountId new = int (length existing) + 1"
  shows "numbering_inv (s\<lparr>oauthAccounts := AList.update chatId (existing @ [new]) (oauthAccounts s)\<rparr>)"
proof -
  have "numbered (map accountId existing)"
  proof (cases "map_of (oauthAccounts s) chatId")
    case None
    then show ?thesis using assms(2) by (simp add: numbered_Nil)
  next
    case (Some a)
    then have "(chatId, a) \<in> set (oauthAccounts s)" by (rule map_of_SomeD)
    then have "numbered (map accountId a)"
      using assms(1) unfolding numbering_inv_def registry_numbered_def by fastforce
    then show ?thesis using assms(2) Some by simp
  qed
  then have n: "numbered (map accountId (existing @ [new]))"
    using numbered_snoc[of "map accountId existing"] assms(3) by simp
  have "numbered (map accountId (snd entry))"
    if "entry \<in> set (AList.update chatId (existing @ [new]) (oauthAccounts s))" for entry
  proof -
    from that have "entry = (chatId, existing @ [new]) \<or> entry \<in> set (oauthAccounts s)"
      by (rule set_update_cases)
    then show ?thesis
      using n assms(1) unfolding numbering_inv_def registry_numbered_def by auto
  qed
  then show ?thesis
    using assms(1) by (simp add: numbering_inv_def registry_numbered_def cache_numbered_def)
qed

lemma oauth_failed_inv: "numbering_inv s \<Longrightarrow> numbering_inv (fst (oauth_failed s chatId))"
  by (simp add: oauth_failed_def)

lemma inv_register_first:
  assumes "numbering_inv s" "map_of (oauthAccounts s) chatId = None" "accountId new = 1"
  shows "numbering_inv (s\<lparr>oauthAccounts := AList.update chatId [new] (oauthAccounts s)\<rparr>)"
  using inv_register[OF assms(1), of "[]" chatId new] assms(2,3) by simp

lemma inv_register_next:
  assumes "numbering_inv s" "map_of (oauthAccounts s) chatId = Some a"
    "accountId new = int (length a) + 1"
  shows "numbering_inv (s\<lparr>oauthAccounts := AList.update chatId (a @ [new]) (oauthAccounts s)\<rparr>)"
  using inv_register[OF assms(1), of a chatId new] assms(2,3) by simp

lemma inv_pending_and_accounts:
  "numbering_inv (s\<lparr>pendingOAuth := po, oauthAccounts := A\<rparr>) =
   numbering_inv (s\<lparr>oauthAccounts := A\<rparr>)"
  by (rule inv_frame) simp_all

lemma oauth2callback_inv:
  assumes "numbering_inv s"
  shows "numbering_inv (fst (oauth2callback e s code st))"
  using assms
  by (auto simp: oauth2callback_def Let_def oauth_failed_inv inv_pending_and_accounts
      split: option.splits sum.splits
      intro!: inv_save inv_register_first inv_register_next)

lemma load_chat_inv:
  assumes "registry_numbered s"
    and "case cd_accounts (snd entry) of None \<Rightarrow> True | Some l \<Rightarrow> numbered (map ad_accountId l)"
  shows "registry_numbered (load_chat s entry)" and "authCache (load_chat s entry) = authCache s"
proof -
  have ids: "accountId \<circ> load_account = ad_accountId"
    by (rule ext) (simp add: load_account_def)
  have n: "numbered (map accountId (map load_account
             (case cd_accounts (snd entry) of None \<Rightarrow> [] | Some l \<Rightarrow> l)))"
    using assms(2) by (simp add: ids numbered_Nil split: option.splits)
  have "numbered (map accountId (snd x))"
    if "x \<in> set (AList.update k (map load_account
             (case cd_accounts (snd entry) of None \<Rightarrow> [] | Some l \<Rightarrow> l)) (oauthAccounts s))"
    for x k
  proof -
    from that set_update_cases
    have "x = (k, map load_account (case cd_accounts (snd entry) of None \<Rightarrow> [] | Some l \<Rightarrow> l))
          \<or> x \<in> set (oauthAccounts s)" by fast
    then show ?thesis using n assms(1) unfolding registry_numbered_def by auto
  qed
  then show "registry_numbered (load_chat s entry)"
    by (simp add: load_chat_def Let_def registry_numbered_def)
  show "authCache (load_chat s entry) = authCache s"
    by (simp add: load_chat_def Let_def)
qed

lemma fold_load_chat_inv:
  assumes "registry_numbered s"
    and "\<forall>entry \<in> set data.
           case cd_accounts (snd entry) of None \<Rightarrow> True | Some l \<Rightarrow> numbered (map ad_accountId l)"
  shows "registry_numbered (foldl load_chat s data) \<and> authCache (foldl load_chat s data) = authCache s"
  using assms
proof (induction data arbitrary: s)
  case Nil
  then show ?case by simp
next
  case (Cons x xs)
  have 1: "registry_numbered (load_chat s x)" and 2: "authCache (load_chat s x) = authCache s"
    using load_chat_inv[of s x] Cons.prems by simp_all
  from Cons.IH[OF 1] Cons.prems(2) 2 show ?case by simp
qed

lemma restart_inv:
  assumes "numbering_inv s"
  shows "numbering_inv (restart s)"
proof -
  let ?s0 = "s\<lparr>pendingEvents := [], oauthAccounts := [], pendingOAuth := [], disabledCalendars := []\<rparr>"
  have r0: "registry_numbered ?s0" by (simp add: registry_numbered_def)
  have c0: "cache_numbered ?s0" using assms by (simp add: numbering_inv_def cache_numbered_def)
  show ?thesis
  proof (cases "authCache s")
    case (Parsed data)
    then have d: "\<forall>entry \<in> set data.
           case cd_accounts (snd entry) of None \<Rightarrow> True | Some l \<Rightarrow> numbered (map ad_accountId l)"
      using assms by (simp add: numbering_inv_def cache_numbered_def)
    from fold_load_chat_inv[OF r0 d]
    have "registry_numbered (foldl load_chat ?s0 data)"
      and a: "authCache (foldl load_chat ?s0 data) = authCache ?s0" by simp_all
    moreover have "cache_numbered (foldl load_chat ?s0 data)"
      using c0 a by (simp add: cache_numbered_def)
    ultimately show ?thesis
      using Parsed by (simp add: restart_def loadAuthCache_def numbering_inv_def)
  next
    case NoFile
    then show ?thesis using r0 c0 by (simp add: restart_def loadAuthCache_def numbering_inv_def)
  next
    case Unparsable
    then show ?thesis using r0 c0 by (simp add: restart_def loadAuthCache_def numbering_inv_def)
  qed
qed

lemma step_inv: "numbering_inv s \<Longrightarrow> numbering_inv (step s ei)"
  by (cases "snd ei")
     (simp_all add: step_def on_message_inv on_callback_query_inv oauth2callback_inv restart_inv)

lemma run_inv: "numbering_inv s \<Longrightarrow> numbering_inv (run s ins)"
  unfolding run_def by (induction ins arbitrary: s) (simp_all add: step_inv)

lemma oauth2callback_registers:
  assumes "oauth2callback e s code st = (s', AuthenticationSuccessful)"
  shows "\<exists>c new.
      map_of (oauthAccounts s') c =
        Some ((case map_of (oauthAccounts s) c of None \<Rightarrow> [] | Some a \<Rightarrow> a) @ [new]) \<and>
      accountId new =
        int (length (case map_of (oauthAccounts s) c of None \<Rightarrow> [] | Some a \<Rightarrow> a)) + 1 \<and>
      (\<forall>other. other \<noteq> c \<longrightarrow> map_of (oauthAccounts s') other = map_of (oauthAccounts s) other)"
proof -
  let ?c = "parseInt (split st CHR '':'' ! 0) (Some 10)"
  let ?ex = "case map_of (oauthAccounts s) ?c of None \<Rightarrow> [] | Some a \<Rightarrow> a"
  from assms obtain new where
    a: "oauthAccounts s' = AList.update ?c (?ex @ [new]) (oauthAccounts s)"
    and n: "accountId new = int (length ?ex) + 1"
    by (auto simp: oauth2callback_def Let_def oauth_failed_def
        split: if_splits option.splits sum.splits)
  show ?thesis
    by (rule exI[of _ ?c], rule exI[of _ new]) (simp add: a n update_conv')
qed

text \<open>
  Claim C8. From the empty process, after any sequence of messages, button presses,
  authorization callbacks and restarts, the \<open>i\<close>-th account of every conversation (counting
  from zero) has the account id \<open>i + 1\<close>; and a successful authorization callback appends to
  the accounts of one conversation one account whose id is their number plus one, and
  leaves the accounts of the other conversations as they are.
\<close>

theorem account_ids_sequential:
  "(\<forall>accs i. map_of (oauthAccounts (run init_state ins)) chatId = Some accs \<and> i < length accs \<longrightarrow>
      accountId (accs ! i) = int i + 1) \<and>
   (\<forall>e s code st s'. oauth2callback e s code st = (s', AuthenticationSuccessful) \<longrightarrow>
      (\<exists>c new.
         map_of (oauthAccounts s') c =
           Some ((case map_of (oauthAccounts s) c of None \<Rightarrow> [] | Some a \<Rightarrow> a) @ [new]) \<and>
         accountId new =
           int (length (case map_of (oauthAccounts s) c of None \<Rightarrow> [] | Some a \<Rightarrow> a)) + 1 \<and>
         (\<forall>other. other \<noteq> c \<longrightarrow>
            map_of (oauthAccounts s') other = map_of (oauthAccounts s) other)))"
proof (intro conjI allI impI)
  fix accs i
  assume h: "map_of (oauthAccounts (run init_state ins)) chatId = Some accs \<and> i < length accs"
  have "numbering_inv (run init_state ins)" by (rule run_inv) (rule inv_init)
  moreover from h have "(chatId, accs) \<in> set (oauthAccounts (run init_state ins))"
    by (simp add: map_of_SomeD)
  ultimately have "numbered (map accountId accs)"
    unfolding numbering_inv_def registry_numbered_def by fastforce
  from numbered_nth[OF this, of i] h show "accountId (accs ! i) = int i + 1" by simp
next
  fix e s code st s'
  assume "oauth2callback e s code st = (s', AuthenticationSuccessful)"
  then show "\<exists>c new.
         map_of (oauthAccounts s') c =
           Some ((case map_of (oauthAccounts s) c of None \<Rightarrow> [] | Some a \<Rightarrow> a) @ [new]) \<and>
         accountId new =
           int (length (case map_of (oauthAccounts s) c of None \<Rightarrow> [] | Some a \<Rightarrow> a)) + 1 \<and>
         (\<forall>other. other \<noteq> c \<longrightarrow>
            map_of (oauthAccounts s') other = map_of (oauthAccounts s) other)"
    by (rule oauth2callback_registers)
qed

lemma digit_chars:
  "digit_char 0 = CHR ''0''" "digit_char 1 = CHR ''1''" "digit_char 2 = CHR ''2''"
  "digit_char 3 = CHR ''3''" "digit_char 4 = CHR ''4''" "digit_char 5 = CHR ''5''"
  "digit_char 6 = CHR ''6''" "digit_char 7 = CHR ''7''" "digit_char 8 = CHR ''8''"
  "digit_char 9 = CHR ''9''" "digit_char (Suc 0) = CHR ''1''"
  by code_simp+

lemma example_key:
  "Number_toString (Num 7) @ '':'' @ dec_string (Date_now example_env) = ''7:1739900000000''"
  by (simp add: Number_toString_def example_env_def dec_string_def digits.simps digit_chars)

lemma example_key_parts:
  "split ''7:1739900000000'' CHR '':'' = [''7'', ''1739900000000'']"
  "parseInt ''7'' (Some 10) = Num 7"
  by code_simp+

lemma on_message_auth: "on_message e s chatId ''/auth'' = on_auth e s chatId"
  by (simp add: on_message_def startsWith_def)

lemma on_auth_fields:
  "oauthAccounts (on_auth e s chatId) = oauthAccounts s"
  "pendingOAuth (on_auth e s chatId) =
     AList.update (Number_toString chatId @ '':'' @ dec_string (Date_now e))
       \<lparr>po_chatId = chatId, po_oauth2Client = OAuth2Client []\<rparr> (pendingOAuth s)"
  by (simp_all add: on_auth_def Let_def)

lemma oauth2callback_success:
  assumes "split st CHR '':'' = p0 # p1 # rest"
    and "map_of (pendingOAuth s) st = Some pending"
    and "getToken e code = Some tokens"
    and "fetchCalendars e (OAuth2Client tokens) = Inr cals"
    and "userinfo_get e (OAuth2Client tokens) = Some em"
  shows "oauthAccounts (fst (oauth2callback e s code st)) =
           AList.update (parseInt p0 (Some 10))
             ((case map_of (oauthAccounts s) (parseInt p0 (Some 10)) of None \<Rightarrow> [] | Some a \<Rightarrow> a) @
              [\<lparr>accountId = int (length (case map_of (oauthAccounts s) (parseInt p0 (Some 10)) of
                                            None \<Rightarrow> [] | Some a \<Rightarrow> a)) + 1,
                email = Some (or_else em ''Unknown Email''),
                oauth2Client = OAuth2Client tokens, calendars = cals\<rparr>])
             (oauthAccounts s)"
    and "pendingOAuth (fst (oauth2callback e s code st)) =
           AList.delete st
             (AList.update st (pending\<lparr>po_oauth2Client := OAuth2Client tokens\<rparr>) (pendingOAuth s))"
  using assms by (simp_all add: oauth2callback_def Let_def)

lemma example_collaborators:
  "getToken example_env ''good'' = Some [(''access_token'', ''t2'')]"
  "fetchCalendars example_env client =
     Inr [\<lparr>cal_id = ''bob@example.com'', cal_summary = ''Bob''\<rparr>,
          \<lparr>cal_id = ''c2'', cal_summary = ''No Title''\<rparr>]"
  "userinfo_get example_env client = Some (Some ''bob@example.com'')"
  by (simp_all add: example_env_def fetchCalendars_def or_else_def)

lemma example_run_accounts:
  "oauthAccounts (run init_state example_run) = [(Num 7, [bob_account 1, bob_account 2])]"
proof -
  let ?key = "''7:1739900000000''"
  let ?pend = "\<lparr>po_chatId = Num 7, po_oauth2Client = OAuth2Client []\<rparr>"
  define s1 where "s1 = on_message example_env init_state (Num 7) ''/auth''"
  define s2 where "s2 = fst (oauth2callback example_env s1 ''good'' ?key)"
  define s3 where "s3 = on_message example_env s2 (Num 7) ''/auth''"
  define s4 where "s4 = fst (oauth2callback example_env s3 ''good'' ?key)"
  have r: "run init_state example_run = s4"
    by (simp add: run_def example_run_def step_def s1_def s2_def s3_def s4_def)
  have a1: "oauthAccounts s1 = []" and p1: "pendingOAuth s1 = [(?key, ?pend)]"
    unfolding s1_def on_message_auth on_auth_fields example_key
    by (simp_all add: init_state_def)
  have m1: "map_of (pendingOAuth s1) ?key = Some ?pend" by (simp add: p1)
  note c1 = oauth2callback_success[OF example_key_parts(1) m1 example_collaborators, folded s2_def]
  have a2: "oauthAccounts s2 = [(Num 7, [bob_account 1])]"
    by (simp add: c1(1) a1 example_key_parts(2) bob_account_def or_else_def)
  have p2: "pendingOAuth s2 = []"
    by (simp add: c1(2) p1)
  have a3: "oauthAccounts s3 = [(Num 7, [bob_account 1])]" and p3: "pendingOAuth s3 = [(?key, ?pend)]"
    unfolding s3_def on_message_auth on_auth_fields example_key
    by (simp_all add: a2 p2)
  have m3: "map_of (pendingOAuth s3) ?key = Some ?pend" by (simp add: p3)
  note c3 = oauth2callback_success[OF example_key_parts(1) m3 example_collaborators, folded s4_def]
  have a4: "oauthAccounts s4 = [(Num 7, [bob_account 1, bob_account 2])]"
    by (simp add: c3(1) a3 example_key_parts(2) bob_account_def or_else_def)
  show ?thesis by (simp only: r a4)
qed

theorem account_ids_sequential_witness:
  "map_of (oauthAccounts (run init_state example_run)) (Num 7) =
     Some [bob_account 1, bob_account 2] \<and>
   accountId ([bob_account 1, bob_account 2] ! 0) = 1 \<and>
   accountId ([bob_account 1, bob_account 2] ! 1) = 2"
proof -
  have m: "map_of (oauthAccounts (run init_state example_run)) (Num 7) =
     Some [bob_account 1, bob_account 2]"
    by (simp add: example_run_accounts)
  note t = account_ids_sequential[of example_run "Num 7", THEN conjunct1, rule_format,
      of "[bob_account 1, bob_account 2]"]
  have 0: "accountId ([bob_account 1, bob_account 2] ! 0) = 1"
    using t[of 0] m by simp
  have 1: "accountId ([bob_account 1, bob_account 2] ! 1) = 2"
    using t[of 1] m by simp
  from m 0 1 show ?thesis by (intro conjI)
qed

section \<open>Persistence: properties\<close>

lemma update_fresh: "k \<notin> fst ` set al \<Longrightarrow> AList.update k v al = al @ [(k, v)]"
  by (induction al) auto

lemma foldl_update_fresh:
  assumes "distinct (map k xs)" "\<forall>x \<in> set xs. k x \<notin> fst ` set acc"
  shows "foldl (\<lambda>a x. AList.update (k x) (v x) a) acc xs = acc @ map (\<lambda>x. (k x, v x)) xs"
  using assms
proof (induction xs arbitrary: acc)
  case Nil
  then show ?case by simp
next
  case (Cons x xs)
  have u: "AList.update (k x) (v x) acc = acc @ [(k x, v x)]"
    using Cons.prems(2) by (simp add: update_fresh)
  have d: "distinct (map k xs)" using Cons.prems(1) by simp
  have f: "\<forall>y \<in> set xs. k y \<notin> fst ` set (acc @ [(k x, v x)])"
  proof
    fix y
    assume y: "y \<in> set xs"
    then have "k y \<in> k ` set xs" by (rule imageI)
    moreover have "k x \<notin> k ` set xs" using Cons.prems(1) by simp
    ultimately have "k y \<noteq> k x" by metis
    moreover have "k y \<notin> fst ` set acc" using Cons.prems(2) y by simp
    ultimately show "k y \<notin> fst ` set (acc @ [(k x, v x)])" by auto
  qed
  show ?case using Cons.IH[OF d f] by (simp add: u)
qed

lemma set_Set_add: "set (foldl Set_add acc arr) = set acc \<union> set arr"
  by (induction arr arbitrary: acc) (auto simp: Set_add_def)

lemma Set_has_of_array: "Set_has (Set_of_array arr) x \<longleftrightarrow> x \<in> set arr"
  by (simp add: Set_has_def Set_of_array_def set_Set_add)

lemma load_account_data: "load_account (account_data a) = a"
  by (simp add: load_account_def account_data_def)

lemma cacheData_of_distinct:
  assumes "distinct (map fst (oauthAccounts s))"
  shows "cacheData_of s =
           map (\<lambda>x. (Number_toString (fst x), chat_data s (fst x) (snd x))) (oauthAccounts s)"
proof -
  have d: "distinct (map (\<lambda>x. Number_toString (fst x)) (oauthAccounts s))"
    using assms Number_toString_inj
    by (simp add: distinct_map inj_on_def)
  have "cacheData_of s =
        foldl (\<lambda>a x. AList.update (Number_toString (fst x)) (chat_data s (fst x) (snd x)) a) []
          (oauthAccounts s)"
    by (simp add: cacheData_of_def case_prod_unfold)
  also have "\<dots> = [] @ map (\<lambda>x. (Number_toString (fst x), chat_data s (fst x) (snd x))) (oauthAccounts s)"
    by (rule foldl_update_fresh[OF d]) simp
  finally show ?thesis by simp
qed

lemma fold_load_chat_fields:
  "oauthAccounts (foldl load_chat s data) =
     foldl (\<lambda>a x. AList.update (parseInt (fst x) (Some 10)) (loaded_accounts x) a)
       (oauthAccounts s) data \<and>
   disabledCalendars (foldl load_chat s data) =
     foldl (\<lambda>a x. AList.update (parseInt (fst x) (Some 10))
                     (load_disabled (cd_disabledCalendars (snd x))) a)
       (disabledCalendars s) data"
  by (induction data arbitrary: s) (simp_all add: load_chat_def Let_def loaded_accounts_def)

lemma restart_fields:
  assumes "authCache s = Parsed data"
    and "distinct (map (\<lambda>x. parseInt (fst x) (Some 10)) data)"
  shows "oauthAccounts (restart s) = map (\<lambda>x. (parseInt (fst x) (Some 10), loaded_accounts x)) data"
    and "disabledCalendars (restart s) =
           map (\<lambda>x. (parseInt (fst x) (Some 10), load_disabled (cd_disabledCalendars (snd x)))) data"
proof -
  let ?s0 = "s\<lparr>pendingEvents := [], oauthAccounts := [], pendingOAuth := [], disabledCalendars := []\<rparr>"
  have r: "restart s = foldl load_chat ?s0 data"
    using assms(1) by (simp add: restart_def loadAuthCache_def)
  show "oauthAccounts (restart s) = map (\<lambda>x. (parseInt (fst x) (Some 10), loaded_accounts x)) data"
    unfolding r using fold_load_chat_fields[of ?s0 data]
      foldl_update_fresh[OF assms(2), of "[]" loaded_accounts]
    by simp
  show "disabledCalendars (restart s) =
           map (\<lambda>x. (parseInt (fst x) (Some 10), load_disabled (cd_disabledCalendars (snd x)))) data"
    unfolding r using fold_load_chat_fields[of ?s0 data]
      foldl_update_fresh[OF assms(2), of "[]" "\<lambda>x. load_disabled (cd_disabledCalendars (snd x))"]
    by simp
qed

lemma load_disabled_saved:
  assumes "distinct (map fst obj)" "\<forall>p \<in> set obj. canonical_key (fst p)"
  shows "load_disabled (Some (map (\<lambda>(acctId, S). (acctId, Some S)) obj)) =
           map (\<lambda>p. (fst p, Set_of_array (snd p))) obj"
proof -
  let ?d = "map (\<lambda>(acctId, S). (acctId, Some S)) obj"
  have k: "Number_toString (parseInt (fst x) None) = fst x" if "x \<in> set ?d" for x
    using that assms(2) by (auto simp: canonical_key_def)
  have "map (\<lambda>x. Number_toString (parseInt (fst x) None)) ?d = map fst obj"
    using assms(2) by (induction obj) (auto simp: canonical_key_def)
  then have d: "distinct (map (\<lambda>x. Number_toString (parseInt (fst x) None)) ?d)"
    using assms(1) by (simp only:)
  have "load_disabled (Some ?d) =
        foldl (\<lambda>a x. AList.update (Number_toString (parseInt (fst x) None))
                        (case snd x of None \<Rightarrow> [] | Some a \<Rightarrow> Set_of_array a) a) [] ?d"
    by (simp add: load_disabled_def case_prod_unfold)
  also have "\<dots> = [] @ map (\<lambda>x. (Number_toString (parseInt (fst x) None),
                                   case snd x of None \<Rightarrow> [] | Some a \<Rightarrow> Set_of_array a)) ?d"
    by (rule foldl_update_fresh[OF d]) simp
  also have "\<dots> = map (\<lambda>p. (fst p, Set_of_array (snd p))) obj"
    using assms(2) by (auto simp: canonical_key_def case_prod_beta)
  finally show ?thesis .
qed

lemma map_of_map_keyed:
  "map_of (map (\<lambda>x. (fst x, f x)) al) k = map_option (\<lambda>v. f (k, v)) (map_of al k)"
  by (induction al) auto

lemma saved_keys:
  "map (\<lambda>x. parseInt (fst x) (Some 10))
     (map (\<lambda>x. (Number_toString (fst x), chat_data s (fst x) (snd x))) al) = map fst al"
  by (induction al) (simp_all add: parseInt_Number_toString)

lemma loaded_saved_accounts:
  "loaded_accounts (k, chat_data s c accounts) = accounts"
  by (simp add: loaded_accounts_def chat_data_def comp_def load_account_data)

lemma restart_after_save:
  assumes "writeFileSync_ok e" "distinct (map fst (oauthAccounts s))"
  shows "oauthAccounts (restart (saveAuthCache e s)) = oauthAccounts s"
    and "disabledCalendars (restart (saveAuthCache e s)) =
           map (\<lambda>x. (fst x, load_disabled (cd_disabledCalendars (chat_data s (fst x) (snd x)))))
             (oauthAccounts s)"
proof -
  let ?data = "map (\<lambda>x. (Number_toString (fst x), chat_data s (fst x) (snd x))) (oauthAccounts s)"
  have a: "authCache (saveAuthCache e s) = Parsed ?data"
    using assms by (simp add: saveAuthCache_def cacheData_of_distinct)
  have d: "distinct (map (\<lambda>x. parseInt (fst x) (Some 10)) ?data)"
    using assms(2) by (simp only: saved_keys)
  note r = restart_fields[OF a d]
  show "oauthAccounts (restart (saveAuthCache e s)) = oauthAccounts s"
    unfolding r(1)
    by (simp add: comp_def parseInt_Number_toString loaded_saved_accounts)
  show "disabledCalendars (restart (saveAuthCache e s)) =
           map (\<lambda>x. (fst x, load_disabled (cd_disabledCalendars (chat_data s (fst x) (snd x)))))
             (oauthAccounts s)"
    unfolding r(2)
    by (simp add: comp_def parseInt_Number_toString)
qed

lemma is_disabled_round_trip:
  assumes "writeFileSync_ok e" "registry_wf s"
    and "map_of (oauthAccounts s) chatId = Some accounts"
  shows "is_disabled (restart (saveAuthCache e s)) chatId acctId c = is_disabled s chatId acctId c"
proof -
  have dk: "distinct (map fst (oauthAccounts s))" using assms(2) by (simp add: registry_wf_def)
  have m: "map_of (disabledCalendars (restart (saveAuthCache e s))) chatId =
           Some (load_disabled (cd_disabledCalendars (chat_data s chatId accounts)))"
    unfolding restart_after_save(2)[OF assms(1) dk] map_of_map_keyed
    by (simp add: assms(3))
  show ?thesis
  proof (cases "map_of (disabledCalendars s) chatId")
    case None
    then have "load_disabled (cd_disabledCalendars (chat_data s chatId accounts)) = []"
      by (simp add: chat_data_def load_disabled_def)
    then show ?thesis using None m by (simp add: is_disabled_def)
  next
    case (Some obj)
    then have "(chatId, obj) \<in> set (disabledCalendars s)" by (rule map_of_SomeD)
    then have w: "distinct (map fst obj)" "\<forall>p \<in> set obj. canonical_key (fst p)"
      using assms(2) unfolding registry_wf_def by fastforce+
    have l: "load_disabled (cd_disabledCalendars (chat_data s chatId accounts)) =
             map (\<lambda>p. (fst p, Set_of_array (snd p))) obj"
      using load_disabled_saved[OF w] Some by (simp add: chat_data_def)
    have "map_of (map (\<lambda>p. (fst p, Set_of_array (snd p))) obj) (dec_string acctId) =
          map_option Set_of_array (map_of obj (dec_string acctId))"
      by (simp add: map_of_map_keyed)
    then show ?thesis
      using Some m l
      by (cases "map_of obj (dec_string acctId)")
         (simp_all add: is_disabled_def Set_has_def Set_of_array_def set_Set_add)
  qed
qed

lemma wf_frame:
  "oauthAccounts s' = oauthAccounts s \<Longrightarrow> disabledCalendars s' = disabledCalendars s \<Longrightarrow>
   registry_wf s' = registry_wf s"
  by (simp add: registry_wf_def)

lemma parseInt_NaN_text_none: "parseInt ''NaN'' None = NaN"
  by (simp add: parseInt_def Let_def is_ws_def radix_digit_def digitValue_def)

lemma canonical_Number_toString: "canonical_key (Number_toString x)"
  by (cases x)
     (simp_all add: canonical_key_def Number_toString_def parseInt_NaN_text_none parseInt_dec_string)

lemma canonical_dec_string: "canonical_key (dec_string a)"
  using canonical_Number_toString[of "Num a"] by (simp add: Number_toString_def)

lemma wf_sendMessage [simp]: "registry_wf (sendMessage s c m) = registry_wf s"
  by (rule wf_frame) simp_all

lemma wf_sendMessage_keyboard [simp]: "registry_wf (sendMessage_keyboard s c m) = registry_wf s"
  by (rule wf_frame) simp_all

lemma wf_saveAuthCache [simp]: "registry_wf (saveAuthCache e s) = registry_wf s"
  by (rule wf_frame) simp_all

lemma wf_updates [simp]:
  "registry_wf (s\<lparr>pendingEvents := pe\<rparr>) = registry_wf s"
  "registry_wf (s\<lparr>pendingOAuth := po\<rparr>) = registry_wf s"
  by (rule wf_frame; simp)+

lemma wf_answer [simp]: "registry_wf (answerCallbackQuery s q) = registry_wf s"
  by (rule wf_frame) (simp_all add: answerCallbackQuery_def)

lemma wf_add_events [simp]:
  "registry_wf (snd (add_events e chatId s els)) = registry_wf s"
  by (rule wf_frame) (simp_all add: add_events_frame)

lemma wf_init: "registry_wf init_state"
  by (simp add: registry_wf_def init_state_def)

lemma wf_object:
  assumes "registry_wf s"
  shows "distinct (map fst (case map_of (disabledCalendars s) chatId of None \<Rightarrow> [] | Some obj \<Rightarrow> obj))"
    and "\<forall>p \<in> set (case map_of (disabledCalendars s) chatId of None \<Rightarrow> [] | Some obj \<Rightarrow> obj).
           canonical_key (fst p)"
proof -
  show "distinct (map fst (case map_of (disabledCalendars s) chatId of None \<Rightarrow> [] | Some obj \<Rightarrow> obj))"
  proof (cases "map_of (disabledCalendars s) chatId")
    case None then show ?thesis by simp
  next
    case (Some obj)
    then have "(chatId, obj) \<in> set (disabledCalendars s)" by (rule map_of_SomeD)
    then show ?thesis using assms Some unfolding registry_wf_def by fastforce
  qed
  show "\<forall>p \<in> set (case map_of (disabledCalendars s) chatId of None \<Rightarrow> [] | Some obj \<Rightarrow> obj).
           canonical_key (fst p)"
  proof (cases "map_of (disabledCalendars s) chatId")
    case None then show ?thesis by simp
  next
    case (Some obj)
    then have "(chatId, obj) \<in> set (disabledCalendars s)" by (rule map_of_SomeD)
    then show ?thesis using assms Some unfolding registry_wf_def by fastforce
  qed
qed

lemma resolve_success_has_accounts:
  assumes "resolveCalendarId s chatId a ref True = Inr r" "success r"
  shows "chatId \<in> set (map fst (oauthAccounts s))"
proof (cases "map_of (oauthAccounts s) chatId")
  case None
  then show ?thesis using assms by (auto simp: resolveCalendarId_def failed_def)
next
  case (Some accounts)
  then have "(chatId, accounts) \<in> set (oauthAccounts s)" by (rule map_of_SomeD)
  then show ?thesis by force
qed

lemma wf_set_disabled:
  assumes "registry_wf s" "distinct (map fst obj)" "\<forall>p \<in> set obj. canonical_key (fst p)"
    and "chatId \<in> set (map fst (oauthAccounts s))"
  shows "registry_wf (s\<lparr>disabledCalendars := AList.update chatId obj (disabledCalendars s)\<rparr>)"
proof -
  have "distinct (map fst (snd entry)) \<and> (\<forall>p \<in> set (snd entry). canonical_key (fst p))"
    if "entry \<in> set (AList.update chatId obj (disabledCalendars s))" for entry
  proof -
    from that have "entry = (chatId, obj) \<or> entry \<in> set (disabledCalendars s)"
      by (rule set_update_cases)
    then show ?thesis using assms unfolding registry_wf_def by auto
  qed
  moreover have "set (map fst (AList.update chatId obj (disabledCalendars s))) \<subseteq>
                 set (map fst (oauthAccounts s))"
    using assms(1,4) by (auto simp: registry_wf_def update_keys)
  ultimately show ?thesis using assms(1) by (simp add: registry_wf_def)
qed

lemma wf_object_update:
  assumes "distinct (map fst obj)" "\<forall>p \<in> set obj. canonical_key (fst p)" "canonical_key k"
  shows "distinct (map fst (AList.update k v obj))"
    and "\<forall>p \<in> set (AList.update k v obj). canonical_key (fst p)"
proof -
  show "distinct (map fst (AList.update k v obj))" using assms(1) by (rule distinct_update)
  show "\<forall>p \<in> set (AList.update k v obj). canonical_key (fst p)"
  proof
    fix p
    assume "p \<in> set (AList.update k v obj)"
    then have "p = (k, v) \<or> p \<in> set obj" by (rule set_update_cases)
    then show "canonical_key (fst p)" using assms(2,3) by auto
  qed
qed

lemma on_disable_wf:
  assumes "registry_wf s"
  shows "registry_wf (on_disable e s chatId text)"
proof -
  have "registry_wf (s\<lparr>disabledCalendars :=
           AList.update chatId
             (AList.update (dec_string a) v
                (case map_of (disabledCalendars s) chatId of None \<Rightarrow> [] | Some obj \<Rightarrow> obj))
             (disabledCalendars s)\<rparr>)"
    if "chatId \<in> set (map fst (oauthAccounts s))" for a v
    by (intro wf_set_disabled[OF assms] wf_object_update wf_object[OF assms] canonical_dec_string that)
  then show ?thesis
    using assms resolve_success_has_accounts[of s chatId]
    by (auto simp: on_disable_def Let_def split: number.splits sum.splits)
qed

lemma wf_after_message:
  "registry_wf ((sendMessage s c m)\<lparr>disabledCalendars := D\<rparr>) =
   registry_wf (s\<lparr>disabledCalendars := D\<rparr>)"
  by (rule wf_frame) simp_all

lemma on_enable_wf:
  assumes "registry_wf s"
  shows "registry_wf (on_enable e s chatId text)"
proof -
  let ?obj = "case map_of (disabledCalendars s) chatId of None \<Rightarrow> [] | Some obj \<Rightarrow> obj"
  have 1: "registry_wf (s\<lparr>disabledCalendars :=
           AList.update chatId (AList.update (dec_string a) v ?obj) (disabledCalendars s)\<rparr>)"
    if "chatId \<in> set (map fst (oauthAccounts s))" for a v
    by (intro wf_set_disabled[OF assms] wf_object_update wf_object[OF assms] canonical_dec_string that)
  have 2: "registry_wf (s\<lparr>disabledCalendars := AList.update chatId ?obj (disabledCalendars s)\<rparr>)"
    if "chatId \<in> set (map fst (oauthAccounts s))"
    by (intro wf_set_disabled[OF assms] wf_object[OF assms] that)
  show ?thesis
    using assms 1 2 resolve_success_has_accounts[of s chatId]
    by (auto simp: on_enable_def Let_def wf_after_message
        split: number.splits sum.splits option.splits)
qed

lemma on_clear_wf:
  assumes "registry_wf s"
  shows "registry_wf (on_clear e s chatId)"
proof -
  have "distinct (map fst (AList.delete chatId (oauthAccounts s)))"
    using assms by (simp add: registry_wf_def distinct_delete)
  moreover have "entry \<in> set (disabledCalendars s)"
    if "entry \<in> set (AList.delete chatId (disabledCalendars s))" for entry
    using that by (rule set_delete_subset)
  moreover have "set (map fst (AList.delete chatId (disabledCalendars s))) \<subseteq>
                 set (map fst (AList.delete chatId (oauthAccounts s)))"
    using assms by (auto simp: registry_wf_def delete_keys)
  ultimately have "registry_wf (s\<lparr>oauthAccounts := AList.delete chatId (oauthAccounts s),
                 disabledCalendars := AList.delete chatId (disabledCalendars s)\<rparr>)"
    using assms by (auto simp: registry_wf_def)
  then show ?thesis by (simp add: on_clear_def Let_def)
qed

lemma on_auth_wf: "registry_wf s \<Longrightarrow> registry_wf (on_auth e s chatId)"
  by (simp add: on_auth_def Let_def)

lemma on_confirm_wf: "registry_wf s \<Longrightarrow> registry_wf (on_confirm s chatId)"
  by (simp add: on_confirm_def split: option.splits)

lemma on_edit_wf: "registry_wf s \<Longrightarrow> registry_wf (on_edit e s chatId text)"
  by (simp add: on_edit_def Let_def split: option.splits sum.splits)

lemma on_calendars_wf: "registry_wf s \<Longrightarrow> registry_wf (on_calendars s chatId text)"
  by (simp add: on_calendars_def Let_def split: option.splits)

lemma on_free_text_wf: "registry_wf s \<Longrightarrow> registry_wf (on_free_text e s chatId text)"
  by (simp add: on_free_text_def Let_def split: sum.splits)

lemma on_message_wf: "registry_wf s \<Longrightarrow> registry_wf (on_message e s chatId text)"
  by (simp add: on_message_def on_disable_wf on_enable_wf on_clear_wf on_auth_wf on_confirm_wf
      on_edit_wf on_calendars_wf on_free_text_wf)

lemma on_callback_query_wf:
  "registry_wf s \<Longrightarrow> registry_wf (on_callback_query e s msg action qid)"
  by (simp add: on_callback_query_def Let_def split: option.splits extraction.splits)

lemma wf_set_accounts:
  assumes "registry_wf s"
  shows "registry_wf (s\<lparr>oauthAccounts := AList.update k v (oauthAccounts s)\<rparr>)"
  using assms by (auto simp: registry_wf_def distinct_update update_keys)

lemma wf_pending_and_accounts:
  "registry_wf (s\<lparr>pendingOAuth := po, oauthAccounts := A\<rparr>) = registry_wf (s\<lparr>oauthAccounts := A\<rparr>)"
  by (rule wf_frame) simp_all

lemma oauth2callback_wf:
  assumes "registry_wf s"
  shows "registry_wf (fst (oauth2callback e s code st))"
  using assms
  by (auto simp: oauth2callback_def Let_def oauth_failed_def wf_pending_and_accounts
      split: option.splits sum.splits intro!: wf_set_accounts)

lemma foldl_update_keys:
  "distinct (map fst acc) \<Longrightarrow>
   distinct (map fst (foldl (\<lambda>a x. AList.update (k x) (v x) a) acc xs))"
  by (induction xs arbitrary: acc) (simp_all add: distinct_update)

lemma foldl_update_members:
  "p \<in> set (foldl (\<lambda>a x. AList.update (k x) (v x) a) acc xs) \<Longrightarrow>
   p \<in> set acc \<or> (\<exists>x \<in> set xs. p = (k x, v x))"
proof (induction xs arbitrary: acc)
  case Nil
  then show ?case by simp
next
  case (Cons x xs)
  from Cons.prems have "p \<in> set (foldl (\<lambda>a x. AList.update (k x) (v x) a)
                                  (AList.update (k x) (v x) acc) xs)" by simp
  from Cons.IH[OF this] show ?case
  proof
    assume "p \<in> set (AList.update (k x) (v x) acc)"
    then have "p = (k x, v x) \<or> p \<in> set acc" by (rule set_update_cases)
    then show ?thesis by auto
  next
    assume "\<exists>y \<in> set xs. p = (k y, v y)"
    then show ?thesis by auto
  qed
qed

lemma key_set_update: "fst ` set (AList.update k v al) = insert k (fst ` set al)"
  by (induction al) auto

lemma foldl_update_key_set:
  "set (map fst (foldl (\<lambda>a x. AList.update (k x) (v x) a) acc xs)) =
   set (map fst acc) \<union> k ` set xs"
  by (induction xs arbitrary: acc) (simp_all add: key_set_update)

lemma load_disabled_wf:
  "distinct (map fst (load_disabled sec)) \<and>
   (\<forall>p \<in> set (load_disabled sec). canonical_key (fst p))"
proof (cases sec)
  case None
  then show ?thesis by (simp add: load_disabled_def)
next
  case (Some d)
  let ?k = "\<lambda>x :: string \<times> string list option. Number_toString (parseInt (fst x) None)"
  let ?v = "\<lambda>x :: string \<times> string list option. case snd x of None \<Rightarrow> [] | Some a \<Rightarrow> Set_of_array a"
  have l: "load_disabled sec = foldl (\<lambda>a x. AList.update (?k x) (?v x) a) [] d"
    using Some by (simp add: load_disabled_def case_prod_unfold)
  have 1: "distinct (map fst (load_disabled sec))"
    unfolding l by (rule foldl_update_keys) simp
  have 2: "canonical_key (fst p)" if "p \<in> set (load_disabled sec)" for p
  proof -
    from that foldl_update_members[of p ?k ?v "[]" d]
    have "\<exists>x \<in> set d. p = (?k x, ?v x)" unfolding l by simp
    then obtain x where "p = (?k x, ?v x)" by blast
    then show ?thesis by (simp add: canonical_Number_toString)
  qed
  from 1 2 show ?thesis by blast
qed

lemma restart_wf: "registry_wf (restart s)"
proof (cases "authCache s")
  case (Parsed data)
  let ?s0 = "s\<lparr>pendingEvents := [], oauthAccounts := [], pendingOAuth := [], disabledCalendars := []\<rparr>"
  have r: "restart s = foldl load_chat ?s0 data"
    using Parsed by (simp add: restart_def loadAuthCache_def)
  note f = fold_load_chat_fields[of ?s0 data]
  have 1: "distinct (map fst (oauthAccounts (restart s)))"
    unfolding r using f foldl_update_keys[of "[]"] by simp
  have 2: "distinct (map fst (snd entry)) \<and> (\<forall>p \<in> set (snd entry). canonical_key (fst p))"
    if "entry \<in> set (disabledCalendars (restart s))" for entry
  proof -
    from that have "entry \<in> set (foldl (\<lambda>a x. AList.update (parseInt (fst x) (Some 10))
                     (load_disabled (cd_disabledCalendars (snd x))) a) [] data)"
      unfolding r using f by simp
    from foldl_update_members[OF this]
    have "\<exists>x \<in> set data. entry =
            (parseInt (fst x) (Some 10), load_disabled (cd_disabledCalendars (snd x)))" by simp
    then obtain x :: "string \<times> ChatData" where
      "entry = (parseInt (fst x) (Some 10), load_disabled (cd_disabledCalendars (snd x)))"
      by blast
    then show ?thesis using load_disabled_wf by simp
  qed
  have 3: "set (map fst (disabledCalendars (restart s))) \<subseteq>
           set (map fst (oauthAccounts (restart s)))"
    unfolding r using f
      foldl_update_key_set[of "\<lambda>x. parseInt (fst x) (Some 10)" loaded_accounts "[]" data]
      foldl_update_key_set[of "\<lambda>x. parseInt (fst x) (Some 10)"
        "\<lambda>x. load_disabled (cd_disabledCalendars (snd x))" "[]" data]
    by simp
  from 1 2 3 show ?thesis by (simp add: registry_wf_def)
next
  case NoFile
  then show ?thesis by (simp add: restart_def loadAuthCache_def registry_wf_def)
next
  case Unparsable
  then show ?thesis by (simp add: restart_def loadAuthCache_def registry_wf_def)
qed

lemma step_wf: "registry_wf s \<Longrightarrow> registry_wf (step s ei)"
  by (cases "snd ei")
     (simp_all add: step_def on_message_wf on_callback_query_wf oauth2callback_wf restart_wf)

lemma run_wf: "registry_wf s \<Longrightarrow> registry_wf (run s ins)"
  unfolding run_def by (induction ins arbitrary: s) (simp_all add: step_wf)

text \<open>
  Claim C7. When the write succeeds, saving and then starting a new process that loads
  the cache file gives back, for every conversation, the same accounts (ids, emails,
  calendars and token material) and the same disabled calendars. An entry of
  the file with no disabled section loads as a conversation with nothing disabled. The
  state is one with a single entry for each key, which every state the process reaches is.
\<close>

theorem save_load_round_trip:
  "(writeFileSync_ok e \<and> registry_wf s \<longrightarrow>
      (\<forall>chatId.
         map_of (oauthAccounts (restart (saveAuthCache e s))) chatId =
           map_of (oauthAccounts s) chatId \<and>
         (\<forall>acctId c. is_disabled (restart (saveAuthCache e s)) chatId acctId c =
                      is_disabled s chatId acctId c))) \<and>
   (\<forall>data entry. authCache s = Parsed data \<and>
      distinct (map (\<lambda>x. parseInt (fst x) (Some 10)) data) \<and>
      entry \<in> set data \<and> cd_disabledCalendars (snd entry) = None \<longrightarrow>
      map_of (disabledCalendars (restart s)) (parseInt (fst entry) (Some 10)) = Some [] \<and>
      (\<forall>acctId c. \<not> is_disabled (restart s) (parseInt (fst entry) (Some 10)) acctId c)) \<and>
   registry_wf (run init_state ins)"
proof (intro conjI allI impI)
  fix chatId
  assume h: "writeFileSync_ok e \<and> registry_wf s"
  then have dk: "distinct (map fst (oauthAccounts s))" by (simp add: registry_wf_def)
  show "map_of (oauthAccounts (restart (saveAuthCache e s))) chatId = map_of (oauthAccounts s) chatId"
    using h by (simp add: restart_after_save(1)[OF _ dk])
  show "is_disabled (restart (saveAuthCache e s)) chatId acctId c = is_disabled s chatId acctId c"
    for acctId c
  proof (cases "map_of (oauthAccounts s) chatId")
    case (Some accounts)
    with h show ?thesis by (intro is_disabled_round_trip) simp_all
  next
    case None
    then have n: "chatId \<notin> set (map fst (oauthAccounts s))"
      by (simp add: map_of_eq_None_iff)
    then have "chatId \<notin> set (map fst (disabledCalendars s))"
      using h unfolding registry_wf_def by blast
    then have 1: "map_of (disabledCalendars s) chatId = None"
      by (simp add: map_of_eq_None_iff)
    have "set (map fst (disabledCalendars (restart (saveAuthCache e s)))) =
          set (map fst (oauthAccounts s))"
      using h by (simp add: restart_after_save(2)[OF _ dk] comp_def)
    with n have 2: "map_of (disabledCalendars (restart (saveAuthCache e s))) chatId = None"
      by (simp add: map_of_eq_None_iff)
    show ?thesis by (simp add: is_disabled_def 1 2)
  qed
next
  fix data entry
  assume h: "authCache s = Parsed data \<and>
      distinct (map (\<lambda>x. parseInt (fst x) (Some 10)) data) \<and>
      entry \<in> set data \<and> cd_disabledCalendars (snd entry) = None"
  then have a: "authCache s = Parsed data"
    and d: "distinct (map (\<lambda>x. parseInt (fst x) (Some 10)) data)" by simp_all
  let ?al = "map (\<lambda>x. (parseInt (fst x) (Some 10), load_disabled (cd_disabledCalendars (snd x)))) data"
  have dl: "distinct (map fst ?al)" using d by (simp add: comp_def)
  have "(parseInt (fst entry) (Some 10), load_disabled (cd_disabledCalendars (snd entry))) \<in> set ?al"
    using h by force
  then have "map_of ?al (parseInt (fst entry) (Some 10)) =
             Some (load_disabled (cd_disabledCalendars (snd entry)))"
    using dl by (rule map_of_is_SomeI[rotated])
  then show r: "map_of (disabledCalendars (restart s)) (parseInt (fst entry) (Some 10)) = Some []"
    using h by (simp add: restart_fields(2)[OF a d] load_disabled_def)
  show "\<not> is_disabled (restart s) (parseInt (fst entry) (Some 10)) acctId c" for acctId c
    by (simp add: is_disabled_def r)
next
  show "registry_wf (run init_state ins)" by (rule run_wf) (rule wf_init)
qed

lemma two_calendars_disabled_wf: "registry_wf two_calendars_disabled"
proof -
  have "canonical_key ''1''" using canonical_dec_string[of 1] by (simp add: dec_string_small)
  then show ?thesis
    by (simp add: registry_wf_def two_calendars_disabled_def two_calendars_def init_state_def)
qed

lemma old_cache_keys:
  "parseInt ''7'' (Some 10) = Num 7"
  by code_simp

theorem save_load_round_trip_witness:
  "writeFileSync_ok example_env \<and> registry_wf two_calendars_disabled \<and>
   map_of (oauthAccounts (restart (saveAuthCache example_env two_calendars_disabled))) (Num 7) =
     Some [\<lparr>accountId = 1, email = Some ''ann@example.com'',
            oauth2Client = OAuth2Client [(''access_token'', ''t1'')],
            calendars = [\<lparr>cal_id = ''ann@example.com'', cal_summary = ''Ann''\<rparr>,
                         \<lparr>cal_id = ''team@group.calendar.google.com'', cal_summary = ''Team''\<rparr>]\<rparr>] \<and>
   is_disabled (restart (saveAuthCache example_env two_calendars_disabled)) (Num 7) 1
     ''ann@example.com'' \<and>
   \<not> is_disabled (restart (saveAuthCache example_env two_calendars_disabled)) (Num 7) 1
     ''team@group.calendar.google.com'' \<and>
   map_of (disabledCalendars (restart old_cache)) (Num 7) = Some []"
proof -
  have w: "writeFileSync_ok example_env" by (simp add: example_env_def)
  have m: "map_of (oauthAccounts two_calendars_disabled) (Num 7) =
     Some [\<lparr>accountId = 1, email = Some ''ann@example.com'',
            oauth2Client = OAuth2Client [(''access_token'', ''t1'')],
            calendars = [\<lparr>cal_id = ''ann@example.com'', cal_summary = ''Ann''\<rparr>,
                         \<lparr>cal_id = ''team@group.calendar.google.com'', cal_summary = ''Team''\<rparr>]\<rparr>]"
    by (simp add: two_calendars_disabled_def two_calendars_lookup)
  note t = save_load_round_trip[of example_env two_calendars_disabled, THEN conjunct1, rule_format,
      OF conjI[OF w two_calendars_disabled_wf], of "Num 7"]
  have d: "is_disabled two_calendars_disabled (Num 7) 1 c \<longleftrightarrow> c = ''ann@example.com''" for c
    by (auto simp: is_disabled_def two_calendars_disabled_def dec_string_small Set_has_def)
  have 1: "is_disabled (restart (saveAuthCache example_env two_calendars_disabled)) (Num 7) 1
     ''ann@example.com''"
    using t d by simp
  have 2: "\<not> is_disabled (restart (saveAuthCache example_env two_calendars_disabled)) (Num 7) 1
     ''team@group.calendar.google.com''"
    using t d by simp
  let ?entry = "(''7'',
                \<lparr>cd_accounts =
                   Some [\<lparr>ad_accountId = 1, ad_email = Some ''ann@example.com'',
                          ad_calendars = [\<lparr>cal_id = ''ann@example.com'', cal_summary = ''Ann''\<rparr>],
                          ad_tokens = [(''access_token'', ''t1'')]\<rparr>],
                 cd_disabledCalendars = None\<rparr>)"
  have a: "authCache old_cache = Parsed [?entry]" by (simp add: old_cache_def init_state_def)
  have 3: "map_of (disabledCalendars (restart old_cache)) (Num 7) = Some []"
    using save_load_round_trip[of example_env old_cache, THEN conjunct2, THEN conjunct1, rule_format,
        of "[?entry]" ?entry] a
    by (simp add: old_cache_keys)
  have 0: "map_of (oauthAccounts (restart (saveAuthCache example_env two_calendars_disabled))) (Num 7) =
     Some [\<lparr>accountId = 1, email = Some ''ann@example.com'',
            oauth2Client = OAuth2Client [(''access_token'', ''t1'')],
            calendars = [\<lparr>cal_id = ''ann@example.com'', cal_summary = ''Ann''\<rparr>,
                         \<lparr>cal_id = ''team@group.calendar.google.com'', cal_summary = ''Team''\<rparr>]\<rparr>]"
    using t m by simp
  from w two_calendars_disabled_wf 0 1 2 3 show ?thesis by (intro conjI)
qed

end
